theory Spec2Isabelle
  imports Complex_Main "HOL-Library.Log_Nat" "HOL-Library.Multiset"
begin

section \<open>JavaScript numbers\<close>

text \<open>
  Every \<^verbatim>\<open>number\<close> of the TypeScript sources is an IEEE-754 binary64 value. A finite
  double is a real number, so numbers are values of type \<^typ>\<open>real\<close>, and each
  arithmetic operation of the sources is the exact operation followed by rounding to the
  nearest double, ties to even (\<open>fl\<close>). Overflow, subnormal numbers, infinities and NaN
  are outside the model: the theorems below that divide assume a positive divisor.
  Loop counters and array indices are integers far below \<open>2 ^ 53\<close> and are kept as
  \<^typ>\<open>int\<close> or \<^typ>\<open>nat\<close>.

  \<open>expo x\<close> is the binary exponent of a positive \<open>x\<close> (\<open>2 ^ e \<le> x < 2 ^ (e + 1)\<close>),
  \<open>rne\<close> rounds to the nearest integer with ties to even, and \<open>roundTo p\<close> keeps
  \<open>p\<close> significant bits: 53 for a double, 24 for an element of a \<^verbatim>\<open>Float32Array\<close>.
\<close>

definition pow2 :: "int \<Rightarrow> real" where
  "pow2 e = (if 0 \<le> e then 2 ^ nat e else 1 / 2 ^ nat (- e))"

definition expo :: "real \<Rightarrow> int" where
  "expo x = (if 1 \<le> x then bitlen \<lfloor>x\<rfloor> - 1 else - bitlen (\<lceil>1 / x\<rceil> - 1))"

definition rne :: "real \<Rightarrow> int" where
  "rne y = (let n = \<lfloor>y\<rfloor>; r = y - of_int n
            in if r < 1 / 2 \<or> (r = 1 / 2 \<and> even n) then n else n + 1)"

definition roundTo :: "nat \<Rightarrow> real \<Rightarrow> real" where
  "roundTo p x =
     (if x = 0 then 0
      else let q = pow2 (expo \<bar>x\<bar> - (int p - 1))
           in sgn x * (of_int (rne (\<bar>x\<bar> / q)) * q))"

definition fl :: "real \<Rightarrow> real" where
  "fl = roundTo 53"

definition f32 :: "real \<Rightarrow> real" where
  "f32 = roundTo 24"

definition fadd :: "real \<Rightarrow> real \<Rightarrow> real" where
  "fadd a b = fl (a + b)"

definition fsub :: "real \<Rightarrow> real \<Rightarrow> real" where
  "fsub a b = fl (a - b)"

definition fmul :: "real \<Rightarrow> real \<Rightarrow> real" where
  "fmul a b = fl (a * b)"

definition fdiv :: "real \<Rightarrow> real \<Rightarrow> real" where
  "fdiv a b = fl (a / b)"

text \<open>
  The remainder operator \<^verbatim>\<open>a % b\<close> is exact in IEEE arithmetic: the dividend minus the
  divisor times the quotient truncated towards zero.
\<close>

definition trunc :: "real \<Rightarrow> int" where
  "trunc x = (if 0 \<le> x then \<lfloor>x\<rfloor> else \<lceil>x\<rceil>)"

definition frem :: "real \<Rightarrow> real \<Rightarrow> real" where
  "frem a b = a - b * of_int (trunc (a / b))"

text \<open>\<^verbatim>\<open>Math.round\<close> rounds half up.\<close>

definition mathRound :: "real \<Rightarrow> int" where
  "mathRound x = \<lfloor>x + 1 / 2\<rfloor>"

lemmas fl_eval = fl_def f32_def roundTo_def expo_def pow2_def rne_def compute_bitlen

lemmas farith = fadd_def fsub_def fmul_def fdiv_def

lemma pow2_powi: "pow2 e = 2 powi e"
  by (simp add: pow2_def power_int_def inverse_eq_divide power_one_over)

lemma pow2_pos: "0 < pow2 e"
  by (simp add: pow2_powi)

lemma pow2_add: "pow2 (a + b) = pow2 a * pow2 b"
  by (simp add: pow2_powi power_int_add)

lemma pow2_mono: "a \<le> b \<Longrightarrow> pow2 a \<le> pow2 b"
  by (simp add: pow2_powi power_int_increasing)

lemma pow2_nat: "pow2 (int n) = 2 ^ n"
  by (simp add: pow2_def)

lemma real_pow2_le: "(2::int) ^ k \<le> n \<Longrightarrow> (2::real) ^ k \<le> real_of_int n"
  by (metis of_int_le_iff of_int_numeral of_int_power)

lemma real_less_pow2: "n < (2::int) ^ k \<Longrightarrow> real_of_int n + 1 \<le> (2::real) ^ k"
proof -
  assume "n < (2::int) ^ k"
  then have "n + 1 \<le> 2 ^ k" by simp
  then have "real_of_int (n + 1) \<le> real_of_int (2 ^ k)" by (simp only: of_int_le_iff)
  then show ?thesis by simp
qed

lemma expo_bounds:
  assumes "0 < x"
  shows "pow2 (expo x) \<le> x \<and> x < pow2 (expo x + 1)"
proof (cases "1 \<le> x")
  case True
  define n where "n = \<lfloor>x\<rfloor>"
  have n: "0 < n" using True by (simp add: n_def)
  have b: "2 ^ nat (bitlen n - 1) \<le> n \<and> n < 2 ^ nat (bitlen n)"
    using bitlen_bounds [OF n] .
  have bl: "1 \<le> bitlen n" using n by (simp add: bitlen_alt_def)
  have e: "expo x = bitlen n - 1" using True by (simp add: expo_def n_def)
  have p0: "pow2 (expo x) = 2 ^ nat (bitlen n - 1)"
    using bl by (simp add: e pow2_def)
  have p1: "pow2 (expo x + 1) = 2 ^ nat (bitlen n)"
    using bl by (simp add: e pow2_def)
  have f1: "(2::real) ^ nat (bitlen n - 1) \<le> real_of_int n"
    using b by (simp add: real_pow2_le)
  have f2: "real_of_int n \<le> x" by (simp add: n_def)
  have f3: "real_of_int n + 1 \<le> 2 ^ nat (bitlen n)"
    using b by (simp add: real_less_pow2)
  have f4: "x < real_of_int n + 1" by (simp add: n_def)
  show ?thesis unfolding p0 p1 using f1 f2 f3 f4 by linarith
next
  case False
  define y where "y = 1 / x"
  have y: "1 < y" using False assms by (simp add: y_def)
  define m where "m = \<lceil>y\<rceil> - 1"
  have m: "0 < m" using y by (simp add: m_def less_ceiling_iff)
  have b: "2 ^ nat (bitlen m - 1) \<le> m \<and> m < 2 ^ nat (bitlen m)"
    using bitlen_bounds [OF m] .
  have bl: "1 \<le> bitlen m" using m by (simp add: bitlen_alt_def)
  have e: "expo x = - bitlen m" using False by (simp add: expo_def m_def y_def)
  have x: "x = 1 / y" using assms by (simp add: y_def)
  have p0: "pow2 (expo x) = 1 / 2 ^ nat (bitlen m)"
    using bl by (simp add: e pow2_def)
  have p1: "pow2 (expo x + 1) = 1 / 2 ^ nat (bitlen m - 1)"
    using bl by (cases "bitlen m = 1") (auto simp add: e pow2_def)
  have my: "real_of_int m < y" unfolding m_def using ceiling_correct [of y] by simp
  have ym: "y \<le> real_of_int m + 1" by (simp add: m_def)
  have f3: "real_of_int m + 1 \<le> 2 ^ nat (bitlen m)"
    using b by (simp add: real_less_pow2)
  have "y \<le> 2 ^ nat (bitlen m)" using ym f3 by linarith
  then have lo: "1 / 2 ^ nat (bitlen m) \<le> 1 / y"
    using y by (intro divide_left_mono) auto
  have f1: "(2::real) ^ nat (bitlen m - 1) \<le> real_of_int m"
    using b by (simp add: real_pow2_le)
  have "2 ^ nat (bitlen m - 1) < y" using my f1 by linarith
  then have hi: "1 / y < 1 / 2 ^ nat (bitlen m - 1)"
    using y by (intro divide_strict_left_mono) auto
  show ?thesis by (simp only: p0 p1) (simp only: x lo hi)
qed

lemma expo_mono:
  assumes "0 < x" "x \<le> y"
  shows "expo x \<le> expo y"
proof (rule ccontr)
  assume "\<not> expo x \<le> expo y"
  then have "expo y + 1 \<le> expo x" by simp
  then have "pow2 (expo y + 1) \<le> pow2 (expo x)" by (rule pow2_mono)
  moreover have "y < pow2 (expo y + 1)" using expo_bounds [of y] assms by simp
  moreover have "pow2 (expo x) \<le> x" using expo_bounds [of x] assms by simp
  ultimately show False using assms by simp
qed

lemma rne_of_int: "rne (of_int n) = n"
  by (simp add: rne_def)

lemma rne_mono:
  assumes "y \<le> z"
  shows "rne y \<le> rne z"
proof (cases "\<lfloor>y\<rfloor> = \<lfloor>z\<rfloor>")
  case True
  then show ?thesis using assms by (auto simp add: rne_def Let_def)
next
  case False
  then have "\<lfloor>y\<rfloor> + 1 \<le> \<lfloor>z\<rfloor>" using floor_mono [OF assms] by simp
  moreover have "rne y \<le> \<lfloor>y\<rfloor> + 1" by (simp add: rne_def Let_def)
  moreover have "\<lfloor>z\<rfloor> \<le> rne z" by (simp add: rne_def Let_def)
  ultimately show ?thesis by simp
qed

lemma roundTo_pos_eq:
  "0 < x \<Longrightarrow>
   roundTo p x = of_int (rne (x / pow2 (expo x - (int p - 1)))) * pow2 (expo x - (int p - 1))"
  by (simp add: roundTo_def Let_def)

lemma roundTo_bounds:
  assumes "0 < x" "0 < p"
  shows "pow2 (expo x) \<le> roundTo p x \<and> roundTo p x \<le> pow2 (expo x + 1)"
proof -
  define q where "q = pow2 (expo x - (int p - 1))"
  have q: "0 < q" by (simp add: q_def pow2_pos)
  have e: "pow2 (expo x) = 2 ^ (p - 1) * q"
    using pow2_add [of "int p - 1" "expo x - (int p - 1)"] assms(2)
    by (simp add: q_def pow2_def nat_diff_distrib)
  have e1: "pow2 (expo x + 1) = 2 ^ p * q"
    using pow2_add [of "int p" "expo x - (int p - 1)"]
    by (simp add: q_def pow2_nat algebra_simps)
  have "2 ^ (p - 1) \<le> x / q"
    using expo_bounds [OF assms(1)] q by (simp add: e pos_le_divide_eq)
  then have "rne (of_int (2 ^ (p - 1))) \<le> rne (x / q)" by (intro rne_mono) simp
  then have "2 ^ (p - 1) \<le> rne (x / q)" by (simp only: rne_of_int)
  then have "(2::real) ^ (p - 1) \<le> real_of_int (rne (x / q))"
    by (rule real_pow2_le)
  then have lo: "pow2 (expo x) \<le> roundTo p x"
    using q assms(1) by (simp add: e roundTo_pos_eq q_def [symmetric])
  have "x / q \<le> 2 ^ p"
    using expo_bounds [OF assms(1)] q by (simp add: e1 pos_divide_le_eq)
  then have "rne (x / q) \<le> rne (of_int (2 ^ p))" by (intro rne_mono) simp
  then have "rne (x / q) \<le> 2 ^ p" by (simp only: rne_of_int)
  then have "real_of_int (rne (x / q)) \<le> real_of_int (2 ^ p)"
    by (simp only: of_int_le_iff)
  then have "real_of_int (rne (x / q)) \<le> 2 ^ p" by simp
  then have hi: "roundTo p x \<le> pow2 (expo x + 1)"
    using q assms(1) by (simp add: e1 roundTo_pos_eq q_def [symmetric])
  from lo hi show ?thesis ..
qed

lemma roundTo_mono_pos:
  assumes "0 < x" "x \<le> y" "0 < p"
  shows "roundTo p x \<le> roundTo p y"
proof (cases "expo x = expo y")
  case True
  define q where "q = pow2 (expo y - (int p - 1))"
  have q: "0 < q" by (simp add: q_def pow2_pos)
  have "x / q \<le> y / q" using assms(2) q by (simp add: divide_right_mono)
  then have "rne (x / q) \<le> rne (y / q)" by (rule rne_mono)
  then have "real_of_int (rne (x / q)) * q \<le> real_of_int (rne (y / q)) * q"
    using q by simp
  then show ?thesis
    using assms by (simp add: roundTo_pos_eq True q_def [symmetric])
next
  case False
  then have "expo x + 1 \<le> expo y" using expo_mono [OF assms(1,2)] by simp
  then have "pow2 (expo x + 1) \<le> pow2 (expo y)" by (rule pow2_mono)
  moreover have "roundTo p x \<le> pow2 (expo x + 1)"
    using roundTo_bounds [OF assms(1,3)] by simp
  moreover have "pow2 (expo y) \<le> roundTo p y"
    using roundTo_bounds [of y p] assms by simp
  ultimately show ?thesis by simp
qed

lemma roundTo_nonneg: "0 \<le> x \<Longrightarrow> 0 < p \<Longrightarrow> 0 \<le> roundTo p x"
  using roundTo_bounds [of x p] pow2_pos [of "expo x"]
  by (cases "x = 0") (auto simp add: roundTo_def)

lemma roundTo_mono_nonneg:
  assumes "0 \<le> x" "x \<le> y" "0 < p"
  shows "roundTo p x \<le> roundTo p y"
proof (cases "x = 0")
  case True
  then show ?thesis using roundTo_nonneg [of y p] assms by (simp add: roundTo_def)
next
  case False
  then show ?thesis using roundTo_mono_pos [of x y p] assms by simp
qed

lemma fl_mono_nonneg: "0 \<le> x \<Longrightarrow> x \<le> y \<Longrightarrow> fl x \<le> fl y"
  by (simp add: fl_def roundTo_mono_nonneg)

lemma fl_zero: "fl 0 = 0"
  by (simp add: fl_def roundTo_def)

lemma fl_one: "fl 1 = 1"
  by (simp add: fl_eval)

lemma fl_hundred: "fl 100 = 100"
  by (simp add: fl_eval)

lemma roundTo_abs: "0 < p \<Longrightarrow> \<bar>roundTo p x\<bar> = roundTo p \<bar>x\<bar>"
proof -
  assume p: "0 < p"
  have n: "0 \<le> roundTo p \<bar>x\<bar>" using p by (simp add: roundTo_nonneg)
  show ?thesis
  proof (cases "x < 0")
    case True
    then have "roundTo p x = - roundTo p \<bar>x\<bar>" by (simp add: roundTo_def Let_def)
    then show ?thesis using n by simp
  next
    case False
    then show ?thesis using n by simp
  qed
qed

lemma fl_abs: "\<bar>fl x\<bar> = fl \<bar>x\<bar>"
  by (simp add: fl_def roundTo_abs)

lemma rne_error: "\<bar>of_int (rne y) - y\<bar> \<le> 1 / 2"
proof -
  have "of_int \<lfloor>y\<rfloor> \<le> y" "y < of_int \<lfloor>y\<rfloor> + 1" by linarith+
  then show ?thesis by (auto simp add: rne_def Let_def)
qed

lemma fl_error:
  assumes "0 < x"
  shows "\<bar>fl x - x\<bar> \<le> x / 2 ^ 53"
proof -
  define q where "q = pow2 (expo x - 52)"
  have q: "0 < q" by (simp add: q_def pow2_pos)
  have f: "fl x = of_int (rne (x / q)) * q"
    using assms by (simp add: fl_def roundTo_pos_eq q_def)
  have "fl x - x = (of_int (rne (x / q)) - x / q) * q"
    using q by (simp add: f field_simps)
  then have "\<bar>fl x - x\<bar> = \<bar>of_int (rne (x / q)) - x / q\<bar> * q"
    using q by (simp add: abs_mult)
  also have "\<dots> \<le> 1 / 2 * q"
    using rne_error [of "x / q"] q by (intro mult_right_mono) simp_all
  finally have a: "\<bar>fl x - x\<bar> \<le> q / 2" by simp
  have "pow2 (expo x) = pow2 52 * q"
    using pow2_add [of 52 "expo x - 52"] by (simp add: q_def)
  then have "pow2 (expo x) = 2 ^ 52 * q" by (simp add: pow2_def)
  moreover have "pow2 (expo x) \<le> x" using expo_bounds [OF assms] by simp
  ultimately have "2 ^ 52 * q \<le> x" by simp
  then have "q / 2 \<le> x / 2 ^ 53" by (simp add: field_simps)
  with a show ?thesis by simp
qed

lemma fl_of_int:
  assumes "0 \<le> n" "n < 2 ^ 53"
  shows "fl (of_int n) = of_int n"
proof (cases "n = 0")
  case True
  then show ?thesis by (simp add: fl_zero)
next
  case False
  define x where "x = real_of_int n"
  have x: "0 < x" using assms False by (simp add: x_def)
  have lt: "x < 2 ^ 53"
  proof -
    have "real_of_int n < real_of_int (2 ^ 53)" using assms(2) by (simp only: of_int_less_iff)
    then show ?thesis by (simp add: x_def)
  qed
  have e: "expo x \<le> 52"
  proof (rule ccontr)
    assume "\<not> expo x \<le> 52"
    then have "53 \<le> expo x" by simp
    then have "pow2 53 \<le> pow2 (expo x)" by (rule pow2_mono)
    moreover have "pow2 (expo x) \<le> x" using expo_bounds [OF x] by simp
    ultimately show False using lt by (simp add: pow2_def)
  qed
  define d where "d = nat (52 - expo x)"
  have q: "pow2 (expo x - 52) = 1 / 2 ^ d"
    using e by (auto simp add: pow2_def d_def)
  have xq: "x / pow2 (expo x - 52) = of_int (n * 2 ^ d)"
    by (simp only: q) (simp add: x_def)
  have "fl x = of_int (rne (x / pow2 (expo x - 52))) * pow2 (expo x - 52)"
    using x by (simp add: fl_def roundTo_pos_eq)
  also have "\<dots> = of_int (n * 2 ^ d) * (1 / 2 ^ d)"
    by (simp only: xq rne_of_int) (simp only: q)
  also have "\<dots> = of_int n" by simp
  finally show ?thesis by (simp add: x_def)
qed

lemma frem_of_int:
  assumes "0 \<le> k" "0 < m"
  shows "frem (of_int k) (of_int m) = of_int (k mod m)"
proof -
  have "0 \<le> real_of_int k / real_of_int m" using assms by simp
  then have "trunc (real_of_int k / real_of_int m) = k div m"
    by (simp add: trunc_def floor_divide_of_int_eq)
  then have "frem (of_int k) (of_int m) = of_int k - of_int m * of_int (k div m)"
    by (simp add: frem_def)
  also have "\<dots> = of_int (k - m * (k div m))" by simp
  also have "k - m * (k div m) = k mod m" by (simp add: minus_mult_div_eq_mod)
  finally show ?thesis .
qed

lemma floor_near_quotient:
  fixes m f :: int and y :: real
  assumes "0 < f" "\<bar>y - of_int m / of_int f\<bar> < 1 / of_int f"
  shows "(m mod f \<noteq> 0 \<longrightarrow> \<lfloor>y\<rfloor> = m div f)
       \<and> (\<lfloor>y\<rfloor> = m div f \<or> \<lfloor>y\<rfloor> = m div f - 1)"
proof -
  define q where "q = m div f"
  define r where "r = m mod f"
  have r: "0 \<le> r" "r < f" using assms(1) by (simp_all add: r_def)
  have m: "m = f * q + r" by (simp add: q_def r_def)
  have fr: "0 < real_of_int f" using assms(1) by simp
  have "\<bar>y * of_int f - of_int m\<bar> < 1"
  proof -
    have "\<bar>y - of_int m / of_int f\<bar> * of_int f < 1 / of_int f * of_int f"
      using assms(2) fr by (rule mult_strict_right_mono)
    moreover have "\<bar>y - of_int m / of_int f\<bar> * of_int f = \<bar>y * of_int f - of_int m\<bar>"
      using fr by (simp add: abs_mult [symmetric, of _ "of_int f"] field_simps del: abs_mult)
    ultimately show ?thesis using fr by simp
  qed
  then have b: "of_int f * of_int q + of_int r - 1 < y * of_int f"
    "y * of_int f < of_int f * of_int q + of_int r + 1"
    unfolding m by (simp_all add: abs_less_iff)
  have hi: "y < of_int q + 1"
  proof -
    have "real_of_int r + 1 \<le> of_int f" using r(2) by linarith
    then have "y * of_int f < (of_int q + 1) * of_int f" using b(2) by (simp add: algebra_simps)
    then show ?thesis using fr by simp
  qed
  have lo1: "of_int q - 1 < y"
  proof -
    have "(of_int q - 1) * real_of_int f \<le> of_int f * of_int q + of_int r - 1"
      using r(1) fr by (simp add: algebra_simps)
    then have "(of_int q - 1) * of_int f < y * of_int f" using b(1) by linarith
    then show ?thesis using fr by simp
  qed
  have lo: "of_int q \<le> y" if "r \<noteq> 0"
  proof -
    have "1 \<le> real_of_int r" using that r(1) by linarith
    then have "of_int q * real_of_int f < y * of_int f" using b(1) by (simp add: algebra_simps)
    then show ?thesis using fr by simp
  qed
  have "\<lfloor>y\<rfloor> = q" if "r \<noteq> 0"
    using lo [OF that] hi by (intro floor_unique) simp_all
  moreover have "\<lfloor>y\<rfloor> = q \<or> \<lfloor>y\<rfloor> = q - 1"
  proof (cases "of_int q \<le> y")
    case True
    then have "\<lfloor>y\<rfloor> = q" using hi by (intro floor_unique) simp_all
    then show ?thesis by simp
  next
    case False
    then have "\<lfloor>y\<rfloor> = q - 1" using lo1 by (intro floor_unique) simp_all
    then show ?thesis by simp
  qed
  ultimately show ?thesis unfolding q_def r_def by simp
qed

section \<open>Timeline data model\<close>

text \<open>
  The records follow \<^verbatim>\<open>types.ts\<close>. A JavaScript object is a bag of properties and the
  sources read type-specific properties through casts, so an element carries the base
  properties and, as options, the properties of media and text elements the modelled
  functions read. Names that are reserved words here are prefixed (\<open>elementId\<close>,
  \<open>trackType\<close>, \<open>mediaFile\<close>).
\<close>

datatype TrackType = MediaTrack | TextTrack | AudioTrack | EffectTrack | OverlayTrack | SubtitleTrack

datatype ElementType = MediaElement | TextElement | EffectElement | OverlayElement | SubtitleElement

datatype MediaType = Video | Image | Audio

datatype BlendMode =
    SourceOver | Multiply | Screen | Overlay | Darken | Lighten | ColorDodge | ColorBurn
  | HardLight | SoftLight | Difference | Exclusion

datatype File = File string

record ExportElement =
  elementId :: string
  elementName :: string
  elementType :: ElementType
  startTime :: real
  duration :: real
  trimStart :: real
  trimEnd :: real
  opacity :: "real option"
  blendMode :: "BlendMode option"
  mediaId :: "string option"
  mediaType :: "MediaType option"
  mediaFile :: "File option"
  url :: "string option"
  content :: "string option"

record ExportTrack =
  trackId :: string
  trackName :: string
  trackType :: TrackType
  elements :: "ExportElement list"
  muted :: bool

record ProjectSettings =
  projectWidth :: real
  projectHeight :: real
  projectFps :: real

record TimelineExportData =
  tracks :: "ExportTrack list"
  timelineDuration :: real
  projectSettings :: "ProjectSettings option"

text \<open>
  \<^verbatim>\<open>ExportSettings\<close>: eight numbers, a colour, a flag and a file name. The numbers are
  a record of their own, which the settings and the object that
  \<^verbatim>\<open>ConfigGenerator.validateSettings\<close> builds both extend.
\<close>

record NumericSettings =
  resolution :: real
  fps :: real
  videoBitrate :: real
  sampleRate :: real
  numberOfChannels :: real
  audioBitrate :: real
  width :: real
  height :: real

record ExportSettings = NumericSettings +
  backgroundColor :: string
  hardwareAcceleration :: bool
  fileName :: string

section \<open>Frame renderer: active set and render order\<close>

text \<open>
  \<^verbatim>\<open>getActiveElementsAtTime\<close> walks the tracks and their elements in order and pushes the
  pairs whose interval holds the timestamp. \<^verbatim>\<open>sortElementsByRenderOrder\<close> calls
  \<^verbatim>\<open>Array.prototype.sort\<close> with a comparator; ECMAScript requires that sort to be
  stable, and for a consistent comparator its result is then determined. It is modelled
  by a stable insertion sort that takes the comparator as the source passes it.
  \<^verbatim>\<open>indexOf\<close> compares by object identity, which is rendered by equality of the track
  records: the two agree on a timeline whose tracks are pairwise different, and the
  theorem on the render order assumes that.
\<close>

record ActiveElement =
  element :: ExportElement
  track :: ExportTrack

definition elementEndTime :: "ExportElement \<Rightarrow> real" where
  "elementEndTime e = fsub (fsub (fadd (startTime e) (duration e)) (trimStart e)) (trimEnd e)"

definition isElementActive :: "ExportElement \<Rightarrow> real \<Rightarrow> bool" where
  "isElementActive e timestamp \<longleftrightarrow> timestamp \<ge> startTime e \<and> timestamp < elementEndTime e"

definition getElementTime :: "ExportElement \<Rightarrow> real \<Rightarrow> real" where
  "getElementTime e timestamp = fadd (fsub timestamp (startTime e)) (trimStart e)"

fun activeOfTrack :: "ExportTrack \<Rightarrow> ExportElement list \<Rightarrow> real \<Rightarrow> ActiveElement list" where
  "activeOfTrack tr [] timestamp = []"
| "activeOfTrack tr (e # es) timestamp =
     (if timestamp \<ge> startTime e \<and> timestamp < elementEndTime e
      then \<lparr>element = e, track = tr\<rparr> # activeOfTrack tr es timestamp
      else activeOfTrack tr es timestamp)"

fun activeOfTracks :: "ExportTrack list \<Rightarrow> real \<Rightarrow> ActiveElement list" where
  "activeOfTracks [] timestamp = []"
| "activeOfTracks (tr # trs) timestamp =
     activeOfTrack tr (elements tr) timestamp @ activeOfTracks trs timestamp"

definition getActiveElementsAtTime :: "TimelineExportData \<Rightarrow> real \<Rightarrow> ActiveElement list" where
  "getActiveElementsAtTime timelineData timestamp = activeOfTracks (tracks timelineData) timestamp"

fun indexOf :: "'a list \<Rightarrow> 'a \<Rightarrow> int" where
  "indexOf [] x = - 1"
| "indexOf (y # ys) x =
     (if y = x then 0 else (let i = indexOf ys x in if i < 0 then - 1 else i + 1))"

definition compareRenderOrder :: "TimelineExportData \<Rightarrow> ActiveElement \<Rightarrow> ActiveElement \<Rightarrow> int" where
  "compareRenderOrder timelineData a b =
     (let aTrackIndex = indexOf (tracks timelineData) (track a);
          bTrackIndex = indexOf (tracks timelineData) (track b)
      in if trackType (track a) = TextTrack \<and> trackType (track b) \<noteq> TextTrack then 1
         else if trackType (track b) = TextTrack \<and> trackType (track a) \<noteq> TextTrack then - 1
         else aTrackIndex - bTrackIndex)"

fun insertSorted :: "('a \<Rightarrow> 'a \<Rightarrow> int) \<Rightarrow> 'a \<Rightarrow> 'a list \<Rightarrow> 'a list" where
  "insertSorted cmp x [] = [x]"
| "insertSorted cmp x (y # ys) =
     (if cmp x y \<le> 0 then x # y # ys else y # insertSorted cmp x ys)"

definition arraySort :: "('a \<Rightarrow> 'a \<Rightarrow> int) \<Rightarrow> 'a list \<Rightarrow> 'a list" where
  "arraySort cmp xs = foldr (insertSorted cmp) xs []"

definition sortElementsByRenderOrder ::
    "TimelineExportData \<Rightarrow> ActiveElement list \<Rightarrow> ActiveElement list" where
  "sortElementsByRenderOrder timelineData els = arraySort (compareRenderOrder timelineData) els"

lemma set_activeOfTrack:
  "set (activeOfTrack tr es t) =
     {\<lparr>element = e, track = tr\<rparr> | e. e \<in> set es \<and> startTime e \<le> t \<and> t < elementEndTime e}"
  by (induction es) auto

lemma set_activeOfTracks:
  "set (activeOfTracks trs t) =
     {\<lparr>element = e, track = tr\<rparr> | e tr.
        tr \<in> set trs \<and> e \<in> set (elements tr) \<and> startTime e \<le> t \<and> t < elementEndTime e}"
  by (induction trs) (auto simp add: set_activeOfTrack)

text \<open>
  Claim C3. An element is in the active set of a frame exactly when it belongs to a track
  of the timeline and the timestamp lies in the half-open interval from its start time to
  \<open>startTime + duration - trimStart - trimEnd\<close> (evaluated left to right, as the source
  does); \<^verbatim>\<open>isElementActive\<close> of the element renderers tests the same interval. At the
  start time the element is active when the interval is not empty, at the interval's end
  it is not.
\<close>

theorem active_iff_in_interval:
  "(\<lparr>element = e, track = tr\<rparr> \<in> set (getActiveElementsAtTime timelineData t) \<longleftrightarrow>
      tr \<in> set (tracks timelineData) \<and> e \<in> set (elements tr) \<and>
      startTime e \<le> t \<and>
      t < fsub (fsub (fadd (startTime e) (duration e)) (trimStart e)) (trimEnd e))
   \<and> (isElementActive e t \<longleftrightarrow>
      startTime e \<le> t \<and>
      t < fsub (fsub (fadd (startTime e) (duration e)) (trimStart e)) (trimEnd e))
   \<and> (isElementActive e (startTime e) \<longleftrightarrow>
      startTime e < fsub (fsub (fadd (startTime e) (duration e)) (trimStart e)) (trimEnd e))
   \<and> \<not> isElementActive e
        (fsub (fsub (fadd (startTime e) (duration e)) (trimStart e)) (trimEnd e))"
  by (auto simp add: getActiveElementsAtTime_def set_activeOfTracks isElementActive_def
      elementEndTime_def)


lemma indexOf_nth: "distinct xs \<Longrightarrow> p < length xs \<Longrightarrow> indexOf xs (xs ! p) = int p"
proof (induction xs arbitrary: p)
  case Nil
  then show ?case by simp
next
  case (Cons y ys)
  show ?case
  proof (cases p)
    case 0
    then show ?thesis by simp
  next
    case (Suc k)
    then have "indexOf ys (ys ! k) = int k" using Cons by simp
    moreover have "ys ! k \<noteq> y" using Cons.prems Suc by auto
    ultimately show ?thesis using Suc by (auto simp add: Let_def)
  qed
qed

lemma mset_insertSorted: "mset (insertSorted cmp x xs) = add_mset x (mset xs)"
  by (induction xs) auto

lemma mset_arraySort: "mset (arraySort cmp xs) = mset xs"
  by (induction xs) (auto simp add: arraySort_def mset_insertSorted)

lemma set_insertSorted: "set (insertSorted cmp x xs) = insert x (set xs)"
  by (induction xs) auto

lemma sorted_insertSorted:
  assumes total: "\<And>a b. cmp a b \<le> 0 \<or> cmp b a \<le> 0"
    and trans: "\<And>a b c. cmp a b \<le> 0 \<Longrightarrow> cmp b c \<le> 0 \<Longrightarrow> cmp a c \<le> 0"
    and "sorted_wrt (\<lambda>a b. cmp a b \<le> 0) xs"
  shows "sorted_wrt (\<lambda>a b. cmp a b \<le> 0) (insertSorted cmp x xs)"
  using assms(3)
proof (induction xs)
  case Nil
  then show ?case by simp
next
  case (Cons y ys)
  show ?case
  proof (cases "cmp x y \<le> 0")
    case True
    then have "\<forall>z\<in>set ys. cmp x z \<le> 0" using Cons.prems trans by auto
    then show ?thesis using True Cons.prems by simp
  next
    case False
    then have "cmp y x \<le> 0" using total [of x y] by simp
    then show ?thesis using False Cons by (auto simp add: set_insertSorted)
  qed
qed

lemma sorted_arraySort:
  assumes "\<And>a b. cmp a b \<le> 0 \<or> cmp b a \<le> 0"
    and "\<And>a b c. cmp a b \<le> 0 \<Longrightarrow> cmp b c \<le> 0 \<Longrightarrow> cmp a c \<le> 0"
  shows "sorted_wrt (\<lambda>a b. cmp a b \<le> 0) (arraySort cmp xs)"
proof (induction xs)
  case Nil
  then show ?case by (simp add: arraySort_def)
next
  case (Cons x xs)
  have "arraySort cmp (x # xs) = insertSorted cmp x (arraySort cmp xs)"
    by (simp add: arraySort_def)
  then show ?case using sorted_insertSorted [of cmp, OF assms Cons] by simp
qed

lemma filter_insertSorted:
  assumes "\<And>y. P x \<Longrightarrow> P y \<Longrightarrow> cmp x y \<le> 0"
  shows "filter P (insertSorted cmp x xs) = (if P x then x # filter P xs else filter P xs)"
  using assms by (induction xs) auto

lemma filter_arraySort:
  assumes "\<And>x y. P x \<Longrightarrow> P y \<Longrightarrow> cmp x y \<le> 0"
  shows "filter P (arraySort cmp xs) = filter P xs"
proof (induction xs)
  case Nil
  then show ?case by (simp add: arraySort_def)
next
  case (Cons x xs)
  have "arraySort cmp (x # xs) = insertSorted cmp x (arraySort cmp xs)"
    by (simp add: arraySort_def)
  then show ?case using Cons filter_insertSorted [of P x cmp] assms by simp
qed

lemma compareRenderOrder_le_iff:
  "compareRenderOrder d a b \<le> 0 \<longleftrightarrow>
     (trackType (track a) = TextTrack \<longrightarrow> trackType (track b) = TextTrack) \<and>
     ((trackType (track a) = TextTrack \<longleftrightarrow> trackType (track b) = TextTrack) \<longrightarrow>
        indexOf (tracks d) (track a) \<le> indexOf (tracks d) (track b))"
  unfolding compareRenderOrder_def Let_def by auto

lemma compareRenderOrder_total:
  "compareRenderOrder d a b \<le> 0 \<or> compareRenderOrder d b a \<le> 0"
  unfolding compareRenderOrder_le_iff by auto

lemma compareRenderOrder_trans:
  "compareRenderOrder d a b \<le> 0 \<Longrightarrow> compareRenderOrder d b c \<le> 0 \<Longrightarrow>
   compareRenderOrder d a c \<le> 0"
  unfolding compareRenderOrder_le_iff by auto

lemma compareRenderOrder_same_track:
  "track a = track b \<Longrightarrow> compareRenderOrder d a b \<le> 0"
  by (simp add: compareRenderOrder_def Let_def)

lemma sorted_render_order:
  "sorted_wrt (\<lambda>a b. compareRenderOrder d a b \<le> 0) (sortElementsByRenderOrder d els)"
  unfolding sortElementsByRenderOrder_def
proof (rule sorted_arraySort)
  show "compareRenderOrder d a b \<le> 0 \<or> compareRenderOrder d b a \<le> 0" for a b
    by (rule compareRenderOrder_total)
  show "compareRenderOrder d a b \<le> 0 \<Longrightarrow> compareRenderOrder d b c \<le> 0 \<Longrightarrow>
        compareRenderOrder d a c \<le> 0" for a b c
    by (rule compareRenderOrder_trans)
qed

text \<open>
  Claim C5. Sorting the active set of a frame permutes it into an order in which no element
  of a text track stands before an element of another track, elements that are both on
  text tracks or both on other tracks stand in ascending order of their track's position
  in the timeline, and the elements of one track keep their relative order.
\<close>

theorem render_order_total:
  assumes "distinct (tracks d)"
  shows "mset (sortElementsByRenderOrder d (getActiveElementsAtTime d t)) =
           mset (getActiveElementsAtTime d t)
       \<and> (\<forall>i j. i < j \<and> j < length (sortElementsByRenderOrder d (getActiveElementsAtTime d t)) \<longrightarrow>
            (trackType (track (sortElementsByRenderOrder d (getActiveElementsAtTime d t) ! i)) = TextTrack
               \<longrightarrow> trackType (track (sortElementsByRenderOrder d (getActiveElementsAtTime d t) ! j)) = TextTrack))
       \<and> (\<forall>i j p q. i < j \<and> j < length (sortElementsByRenderOrder d (getActiveElementsAtTime d t)) \<and>
            p < length (tracks d) \<and> q < length (tracks d) \<and>
            tracks d ! p = track (sortElementsByRenderOrder d (getActiveElementsAtTime d t) ! i) \<and>
            tracks d ! q = track (sortElementsByRenderOrder d (getActiveElementsAtTime d t) ! j) \<and>
            (trackType (tracks d ! p) = TextTrack \<longleftrightarrow> trackType (tracks d ! q) = TextTrack)
            \<longrightarrow> p \<le> q)
       \<and> (\<forall>tr. filter (\<lambda>a. track a = tr) (sortElementsByRenderOrder d (getActiveElementsAtTime d t)) =
                 filter (\<lambda>a. track a = tr) (getActiveElementsAtTime d t))"
proof -
  define act where "act = getActiveElementsAtTime d t"
  define res where "res = sortElementsByRenderOrder d act"
  have perm: "mset res = mset act"
    by (simp add: res_def sortElementsByRenderOrder_def mset_arraySort)
  have sorted: "sorted_wrt (\<lambda>a b. compareRenderOrder d a b \<le> 0) res"
    unfolding res_def by (rule sorted_render_order)
  have le: "compareRenderOrder d (res ! i) (res ! j) \<le> 0" if "i < j" "j < length res" for i j
    using sorted that by (simp add: sorted_wrt_iff_nth_less)
  have text_above: "trackType (track (res ! j)) = TextTrack"
    if "i < j" "j < length res" "trackType (track (res ! i)) = TextTrack" for i j
    using le [OF that(1,2)] that(3) unfolding compareRenderOrder_le_iff by simp
  have by_index: "p \<le> q"
    if "i < j" "j < length res" "p < length (tracks d)" "q < length (tracks d)"
      "tracks d ! p = track (res ! i)" "tracks d ! q = track (res ! j)"
      "trackType (tracks d ! p) = TextTrack \<longleftrightarrow> trackType (tracks d ! q) = TextTrack"
    for i j p q
  proof -
    have ip: "indexOf (tracks d) (track (res ! i)) = int p"
      using indexOf_nth [OF assms that(3)] that(5) by simp
    have iq: "indexOf (tracks d) (track (res ! j)) = int q"
      using indexOf_nth [OF assms that(4)] that(6) by simp
    have "indexOf (tracks d) (track (res ! i)) \<le> indexOf (tracks d) (track (res ! j))"
      using le [OF that(1,2)] that(5,6,7) unfolding compareRenderOrder_le_iff by simp
    then show ?thesis unfolding ip iq by simp
  qed
  have stable: "filter (\<lambda>a. track a = tr) res = filter (\<lambda>a. track a = tr) act" for tr
    unfolding res_def sortElementsByRenderOrder_def
    by (rule filter_arraySort) (simp add: compareRenderOrder_same_track)
  have "mset res = mset act
       \<and> (\<forall>i j. i < j \<and> j < length res \<longrightarrow>
            (trackType (track (res ! i)) = TextTrack \<longrightarrow> trackType (track (res ! j)) = TextTrack))
       \<and> (\<forall>i j p q. i < j \<and> j < length res \<and> p < length (tracks d) \<and> q < length (tracks d) \<and>
            tracks d ! p = track (res ! i) \<and> tracks d ! q = track (res ! j) \<and>
            (trackType (tracks d ! p) = TextTrack \<longleftrightarrow> trackType (tracks d ! q) = TextTrack)
            \<longrightarrow> p \<le> q)
       \<and> (\<forall>tr. filter (\<lambda>a. track a = tr) res = filter (\<lambda>a. track a = tr) act)"
  proof (intro conjI allI impI)
    show "mset res = mset act" by (rule perm)
  next
    fix i j
    assume "i < j \<and> j < length res" "trackType (track (res ! i)) = TextTrack"
    then show "trackType (track (res ! j)) = TextTrack" using text_above by blast
  next
    fix i j p q
    assume "i < j \<and> j < length res \<and> p < length (tracks d) \<and> q < length (tracks d) \<and>
            tracks d ! p = track (res ! i) \<and> tracks d ! q = track (res ! j) \<and>
            (trackType (tracks d ! p) = TextTrack \<longleftrightarrow> trackType (tracks d ! q) = TextTrack)"
    then have "i < j" "j < length res" "p < length (tracks d)" "q < length (tracks d)"
      "tracks d ! p = track (res ! i)" "tracks d ! q = track (res ! j)"
      "trackType (tracks d ! p) = TextTrack \<longleftrightarrow> trackType (tracks d ! q) = TextTrack"
      by blast+
    then show "p \<le> q" by (rule by_index)
  next
    fix tr
    show "filter (\<lambda>a. track a = tr) res = filter (\<lambda>a. track a = tr) act" by (rule stable)
  qed
  then show ?thesis unfolding res_def act_def .
qed


section \<open>Sample timeline\<close>

definition clipA :: ExportElement where
  "clipA = \<lparr>elementId = ''clipA'', elementName = ''Clip A'', elementType = MediaElement,
     startTime = 0, duration = 5, trimStart = 1, trimEnd = 0,
     opacity = None, blendMode = None, mediaId = Some ''m1'', mediaType = Some Video,
     mediaFile = None, url = Some ''blob:a'', content = None\<rparr>"

definition clipB :: ExportElement where
  "clipB = \<lparr>elementId = ''clipB'', elementName = ''Clip B'', elementType = MediaElement,
     startTime = 2, duration = 4, trimStart = 0, trimEnd = 0,
     opacity = None, blendMode = None, mediaId = Some ''m2'', mediaType = Some Image,
     mediaFile = Some (File ''b.png''), url = None, content = None\<rparr>"

definition title :: ExportElement where
  "title = \<lparr>elementId = ''title'', elementName = ''Title'', elementType = TextElement,
     startTime = 1, duration = 3, trimStart = 0, trimEnd = 0,
     opacity = Some 1, blendMode = None, mediaId = None, mediaType = None,
     mediaFile = None, url = None, content = Some ''HELLO''\<rparr>"

definition titles :: ExportTrack where
  "titles = \<lparr>trackId = ''t0'', trackName = ''Titles'', trackType = TextTrack,
     elements = [title], muted = False\<rparr>"

definition clips :: ExportTrack where
  "clips = \<lparr>trackId = ''t1'', trackName = ''Clips'', trackType = MediaTrack,
     elements = [clipA, clipB], muted = False\<rparr>"

definition sampleTimeline :: TimelineExportData where
  "sampleTimeline = \<lparr>tracks = [titles, clips], timelineDuration = 6,
     projectSettings = Some \<lparr>projectWidth = 1920, projectHeight = 1080, projectFps = 30\<rparr>\<rparr>"

lemmas sample_defs = sampleTimeline_def titles_def clips_def title_def clipA_def clipB_def

lemma sample_active:
  "getActiveElementsAtTime sampleTimeline 3 =
     [\<lparr>element = title, track = titles\<rparr>, \<lparr>element = clipA, track = clips\<rparr>,
      \<lparr>element = clipB, track = clips\<rparr>]"
  by (simp add: getActiveElementsAtTime_def elementEndTime_def farith fl_eval sample_defs)

theorem active_iff_in_interval_witness:
  "(\<lparr>element = clipA, track = clips\<rparr> \<in> set (getActiveElementsAtTime sampleTimeline 3))
   \<and> isElementActive clipA 0 \<and> \<not> isElementActive clipA 4
   \<and> fsub (fsub (fadd (startTime clipA) (duration clipA)) (trimStart clipA)) (trimEnd clipA) = 4"
proof -
  have e: "fsub (fsub (fadd (startTime clipA) (duration clipA)) (trimStart clipA)) (trimEnd clipA) = 4"
    by (simp add: clipA_def farith fl_eval)
  have m: "clips \<in> set (tracks sampleTimeline) \<and> clipA \<in> set (elements clips)"
    by (simp add: sampleTimeline_def clips_def)
  show ?thesis
    using active_iff_in_interval [of clipA clips sampleTimeline 3]
      active_iff_in_interval [of clipA clips sampleTimeline 0]
      active_iff_in_interval [of clipA clips sampleTimeline 4] m
    unfolding e by (simp add: clipA_def)
qed

theorem render_order_total_witness:
  "distinct (tracks sampleTimeline)
   \<and> sortElementsByRenderOrder sampleTimeline (getActiveElementsAtTime sampleTimeline 3) =
     [\<lparr>element = clipA, track = clips\<rparr>, \<lparr>element = clipB, track = clips\<rparr>,
      \<lparr>element = title, track = titles\<rparr>]
   \<and> mset (sortElementsByRenderOrder sampleTimeline (getActiveElementsAtTime sampleTimeline 3)) =
       mset (getActiveElementsAtTime sampleTimeline 3)"
proof -
  have d: "distinct (tracks sampleTimeline)"
    by (simp add: sampleTimeline_def titles_def clips_def)
  have c: "compareRenderOrder sampleTimeline \<lparr>element = x, track = clips\<rparr>
             \<lparr>element = y, track = titles\<rparr> = - 1"
       "compareRenderOrder sampleTimeline \<lparr>element = x, track = titles\<rparr>
             \<lparr>element = y, track = clips\<rparr> = 1"
       "compareRenderOrder sampleTimeline \<lparr>element = x, track = clips\<rparr>
             \<lparr>element = y, track = clips\<rparr> = 0" for x y
    by (simp_all add: compareRenderOrder_def sampleTimeline_def titles_def clips_def)
  have s: "sortElementsByRenderOrder sampleTimeline (getActiveElementsAtTime sampleTimeline 3) =
     [\<lparr>element = clipA, track = clips\<rparr>, \<lparr>element = clipB, track = clips\<rparr>,
      \<lparr>element = title, track = titles\<rparr>]"
    unfolding sample_active by (simp add: sortElementsByRenderOrder_def arraySort_def c)
  have "mset (sortElementsByRenderOrder sampleTimeline (getActiveElementsAtTime sampleTimeline 3)) =
       mset (getActiveElementsAtTime sampleTimeline 3)"
    using render_order_total [OF d, of 3] by (rule conjunct1)
  with d s show ?thesis by simp
qed

section \<open>Export settings: defaults and validation\<close>

text \<open>
  \<^verbatim>\<open>Partial<ExportSettings>\<close>: every property may be absent, and a property that is
  present may hold \<^verbatim>\<open>undefined\<close>. \<^verbatim>\<open>a || b\<close> yields \<open>b\<close> when \<open>a\<close> is falsy; a
  number that is absent or \<^verbatim>\<open>undefined\<close> and the number 0 are falsy. The object spread
  \<^verbatim>\<open>{...defaults, ...settings}\<close> copies every property that \<open>settings\<close> has over the
  default, also one that holds \<^verbatim>\<open>undefined\<close>. The eight numbers are computed anew after
  the spread; the colour, the flag and the file name are left as spread, so the object
  returned holds a value or \<^verbatim>\<open>undefined\<close> (\<open>None\<close>) there.
\<close>

datatype 'a Property = Absent | Undefined | Given 'a

record PartialExportSettings =
  resolutionOpt :: "real Property"
  fpsOpt :: "real Property"
  videoBitrateOpt :: "real Property"
  sampleRateOpt :: "real Property"
  numberOfChannelsOpt :: "real Property"
  audioBitrateOpt :: "real Property"
  widthOpt :: "real Property"
  heightOpt :: "real Property"
  backgroundColorOpt :: "string Property"
  hardwareAccelerationOpt :: "bool Property"
  fileNameOpt :: "string Property"

record SettingsObject = NumericSettings +
  backgroundColorValue :: "string option"
  hardwareAccelerationValue :: "bool option"
  fileNameValue :: "string option"

definition getDefaultSettings :: ExportSettings where
  "getDefaultSettings =
     \<lparr>resolution = 1, fps = 30, videoBitrate = 4000000, sampleRate = 48000,
      numberOfChannels = 2, audioBitrate = 128000, width = 1920, height = 1080,
      backgroundColor = ''#000000'', hardwareAcceleration = True, fileName = ''export.mp4''\<rparr>"

definition numberOr :: "real Property \<Rightarrow> real \<Rightarrow> real" where
  "numberOr v d = (case v of Absent \<Rightarrow> d | Undefined \<Rightarrow> d | Given x \<Rightarrow> if x = 0 then d else x)"

definition spreadOver :: "'a \<Rightarrow> 'a Property \<Rightarrow> 'a option" where
  "spreadOver d v = (case v of Absent \<Rightarrow> Some d | Undefined \<Rightarrow> None | Given x \<Rightarrow> Some x)"

definition supportedSampleRates :: "real list" where
  "supportedSampleRates = [8000, 16000, 22050, 44100, 48000]"

definition validateSettings :: "PartialExportSettings \<Rightarrow> SettingsObject" where
  "validateSettings settings =
     (let defaults = getDefaultSettings in
      \<lparr>resolution = max (1 / 4) (min 4 (numberOr (resolutionOpt settings) (resolution defaults))),
       fps = max 1 (min 120 (numberOr (fpsOpt settings) (fps defaults))),
       videoBitrate =
         max 500000 (min 100000000 (numberOr (videoBitrateOpt settings) (videoBitrate defaults))),
       sampleRate =
         (if numberOr (sampleRateOpt settings) (sampleRate defaults) \<in> set supportedSampleRates
          then numberOr (sampleRateOpt settings) (sampleRate defaults)
          else sampleRate defaults),
       numberOfChannels =
         max 1 (min 8 (numberOr (numberOfChannelsOpt settings) (numberOfChannels defaults))),
       audioBitrate =
         max 64000 (min 320000 (numberOr (audioBitrateOpt settings) (audioBitrate defaults))),
       width = max 64 (min 7680 (numberOr (widthOpt settings) (width defaults))),
       height = max 64 (min 4320 (numberOr (heightOpt settings) (height defaults))),
       backgroundColorValue = spreadOver (backgroundColor defaults) (backgroundColorOpt settings),
       hardwareAccelerationValue =
         spreadOver (hardwareAcceleration defaults) (hardwareAccelerationOpt settings),
       fileNameValue = spreadOver (fileName defaults) (fileNameOpt settings)\<rparr>)"

text \<open>
  The object is an \<^verbatim>\<open>ExportSettings\<close> when each of its properties holds a value.
\<close>

definition complete :: "SettingsObject \<Rightarrow> bool" where
  "complete obj \<longleftrightarrow>
     backgroundColorValue obj \<noteq> None \<and> hardwareAccelerationValue obj \<noteq> None \<and>
     fileNameValue obj \<noteq> None"

definition noSettings :: PartialExportSettings where
  "noSettings =
     \<lparr>resolutionOpt = Absent, fpsOpt = Absent, videoBitrateOpt = Absent, sampleRateOpt = Absent,
      numberOfChannelsOpt = Absent, audioBitrateOpt = Absent, widthOpt = Absent,
      heightOpt = Absent, backgroundColorOpt = Absent, hardwareAccelerationOpt = Absent,
      fileNameOpt = Absent\<rparr>"

definition clampedOr :: "real \<Rightarrow> real \<Rightarrow> real \<Rightarrow> real Property \<Rightarrow> real" where
  "clampedOr lo hi d v =
     (case v of Absent \<Rightarrow> d | Undefined \<Rightarrow> d | Given x \<Rightarrow> if x = 0 then d else max lo (min hi x))"

lemma clamp_numberOr:
  "lo \<le> d \<Longrightarrow> d \<le> hi \<Longrightarrow> max lo (min hi (numberOr v d)) = clampedOr lo hi d v"
  by (auto simp add: numberOr_def clampedOr_def split: Property.splits)

lemma clampedOr_range: "lo \<le> d \<Longrightarrow> d \<le> hi \<Longrightarrow> lo \<le> clampedOr lo hi d v \<and> clampedOr lo hi d v \<le> hi"
  by (auto simp add: clampedOr_def split: Property.splits)

text \<open>
  Claim C10. The claim has every numeric field clamped into its range and a complete
  record returned for every partial record. A field given as 0 is not clamped to the
  lower bound of its range: \<^verbatim>\<open>settings.fps || defaults.fps\<close> takes 0 for a missing
  value, so a frame rate of 0 becomes the default 30 where clamping into \<open>[1, 120]\<close>
  gives 1. And the partial record \<^verbatim>\<open>{backgroundColor: undefined}\<close> yields an object
  whose colour is \<^verbatim>\<open>undefined\<close>, not the default.
\<close>

theorem validateSettings_zero_counterexample:
  "fps (validateSettings (noSettings\<lparr>fpsOpt := Given 0\<rparr>)) = 30 \<and> max 1 (min 120 (0::real)) = 1
   \<and> backgroundColorValue (validateSettings (noSettings\<lparr>backgroundColorOpt := Undefined\<rparr>)) = None
   \<and> \<not> complete (validateSettings (noSettings\<lparr>backgroundColorOpt := Undefined\<rparr>))"
  by (simp add: validateSettings_def Let_def noSettings_def getDefaultSettings_def numberOr_def
      spreadOver_def complete_def)

text \<open>
  Claim C10, amended. \<^verbatim>\<open>validateSettings\<close> is total. A numeric field that is given and
  not 0 is clamped into its range; one that is absent, \<^verbatim>\<open>undefined\<close> or 0 takes the
  default (\<open>clampedOr\<close>). The sample rate is kept when it is one of 8000, 16000, 22050,
  44100 and 48000 and is 48000 otherwise. Every numeric field of the result lies in its
  range. The colour, the flag and the file name are kept when given, take the defaults
  when absent and are \<^verbatim>\<open>undefined\<close> when given as \<^verbatim>\<open>undefined\<close>; the object returned is
  a complete settings record exactly when none of the three is given as \<^verbatim>\<open>undefined\<close>.
\<close>

theorem validateSettings_total:
  "resolution (validateSettings s) = clampedOr (1 / 4) 4 1 (resolutionOpt s)
   \<and> fps (validateSettings s) = clampedOr 1 120 30 (fpsOpt s)
   \<and> width (validateSettings s) = clampedOr 64 7680 1920 (widthOpt s)
   \<and> height (validateSettings s) = clampedOr 64 4320 1080 (heightOpt s)
   \<and> numberOfChannels (validateSettings s) = clampedOr 1 8 2 (numberOfChannelsOpt s)
   \<and> videoBitrate (validateSettings s) = clampedOr 500000 100000000 4000000 (videoBitrateOpt s)
   \<and> audioBitrate (validateSettings s) = clampedOr 64000 320000 128000 (audioBitrateOpt s)
   \<and> sampleRate (validateSettings s) =
       (case sampleRateOpt s of
          Absent \<Rightarrow> 48000
        | Undefined \<Rightarrow> 48000
        | Given r \<Rightarrow> if r \<in> {8000, 16000, 22050, 44100, 48000} then r else 48000)
   \<and> backgroundColorValue (validateSettings s) =
       (case backgroundColorOpt s of
          Absent \<Rightarrow> Some ''#000000'' | Undefined \<Rightarrow> None | Given c \<Rightarrow> Some c)
   \<and> hardwareAccelerationValue (validateSettings s) =
       (case hardwareAccelerationOpt s of
          Absent \<Rightarrow> Some True | Undefined \<Rightarrow> None | Given h \<Rightarrow> Some h)
   \<and> fileNameValue (validateSettings s) =
       (case fileNameOpt s of
          Absent \<Rightarrow> Some ''export.mp4'' | Undefined \<Rightarrow> None | Given f \<Rightarrow> Some f)
   \<and> (complete (validateSettings s) \<longleftrightarrow>
        backgroundColorOpt s \<noteq> Undefined \<and> hardwareAccelerationOpt s \<noteq> Undefined \<and>
        fileNameOpt s \<noteq> Undefined)
   \<and> 1 / 4 \<le> resolution (validateSettings s) \<and> resolution (validateSettings s) \<le> 4
   \<and> 1 \<le> fps (validateSettings s) \<and> fps (validateSettings s) \<le> 120
   \<and> 64 \<le> width (validateSettings s) \<and> width (validateSettings s) \<le> 7680
   \<and> 64 \<le> height (validateSettings s) \<and> height (validateSettings s) \<le> 4320
   \<and> 1 \<le> numberOfChannels (validateSettings s) \<and> numberOfChannels (validateSettings s) \<le> 8
   \<and> 500000 \<le> videoBitrate (validateSettings s) \<and> videoBitrate (validateSettings s) \<le> 100000000
   \<and> 64000 \<le> audioBitrate (validateSettings s) \<and> audioBitrate (validateSettings s) \<le> 320000
   \<and> sampleRate (validateSettings s) \<in> {8000, 16000, 22050, 44100, 48000}"
proof -
  have r: "resolution (validateSettings s) = clampedOr (1 / 4) 4 1 (resolutionOpt s)"
    by (simp add: validateSettings_def Let_def getDefaultSettings_def clamp_numberOr)
  have f: "fps (validateSettings s) = clampedOr 1 120 30 (fpsOpt s)"
    by (simp add: validateSettings_def Let_def getDefaultSettings_def clamp_numberOr)
  have w: "width (validateSettings s) = clampedOr 64 7680 1920 (widthOpt s)"
    by (simp add: validateSettings_def Let_def getDefaultSettings_def clamp_numberOr)
  have h: "height (validateSettings s) = clampedOr 64 4320 1080 (heightOpt s)"
    by (simp add: validateSettings_def Let_def getDefaultSettings_def clamp_numberOr)
  have c: "numberOfChannels (validateSettings s) = clampedOr 1 8 2 (numberOfChannelsOpt s)"
    by (simp add: validateSettings_def Let_def getDefaultSettings_def clamp_numberOr)
  have v: "videoBitrate (validateSettings s) =
      clampedOr 500000 100000000 4000000 (videoBitrateOpt s)"
    by (simp add: validateSettings_def Let_def getDefaultSettings_def clamp_numberOr)
  have a: "audioBitrate (validateSettings s) = clampedOr 64000 320000 128000 (audioBitrateOpt s)"
    by (simp add: validateSettings_def Let_def getDefaultSettings_def clamp_numberOr)
  have sr: "sampleRate (validateSettings s) =
       (case sampleRateOpt s of
          Absent \<Rightarrow> 48000
        | Undefined \<Rightarrow> 48000
        | Given r \<Rightarrow> if r \<in> {8000, 16000, 22050, 44100, 48000} then r else 48000)"
    by (auto simp add: validateSettings_def Let_def getDefaultSettings_def numberOr_def
        supportedSampleRates_def split: Property.splits)
  have b: "backgroundColorValue (validateSettings s) =
       (case backgroundColorOpt s of
          Absent \<Rightarrow> Some ''#000000'' | Undefined \<Rightarrow> None | Given c \<Rightarrow> Some c)"
    by (simp add: validateSettings_def Let_def getDefaultSettings_def spreadOver_def
        split: Property.splits)
  have hw: "hardwareAccelerationValue (validateSettings s) =
       (case hardwareAccelerationOpt s of
          Absent \<Rightarrow> Some True | Undefined \<Rightarrow> None | Given h \<Rightarrow> Some h)"
    by (simp add: validateSettings_def Let_def getDefaultSettings_def spreadOver_def
        split: Property.splits)
  have fn: "fileNameValue (validateSettings s) =
       (case fileNameOpt s of
          Absent \<Rightarrow> Some ''export.mp4'' | Undefined \<Rightarrow> None | Given f \<Rightarrow> Some f)"
    by (simp add: validateSettings_def Let_def getDefaultSettings_def spreadOver_def
        split: Property.splits)
  have co: "complete (validateSettings s) \<longleftrightarrow>
        backgroundColorOpt s \<noteq> Undefined \<and> hardwareAccelerationOpt s \<noteq> Undefined \<and>
        fileNameOpt s \<noteq> Undefined"
    unfolding complete_def b hw fn by (auto split: Property.splits)
  have srr: "sampleRate (validateSettings s) \<in> {8000, 16000, 22050, 44100, 48000}"
    unfolding sr by (simp split: Property.splits)
  show ?thesis
    unfolding r f w h c v a
    using sr b hw fn co srr
      clampedOr_range [of "1 / 4" 1 4 "resolutionOpt s"]
      clampedOr_range [of 1 30 120 "fpsOpt s"]
      clampedOr_range [of 64 1920 7680 "widthOpt s"]
      clampedOr_range [of 64 1080 4320 "heightOpt s"]
      clampedOr_range [of 1 2 8 "numberOfChannelsOpt s"]
      clampedOr_range [of 500000 4000000 100000000 "videoBitrateOpt s"]
      clampedOr_range [of 64000 128000 320000 "audioBitrateOpt s"]
    by simp
qed

theorem validateSettings_total_witness:
  "fps (validateSettings (noSettings\<lparr>fpsOpt := Given 240, widthOpt := Given 32\<rparr>)) = 120
   \<and> width (validateSettings (noSettings\<lparr>fpsOpt := Given 240, widthOpt := Given 32\<rparr>)) = 64
   \<and> height (validateSettings (noSettings\<lparr>fpsOpt := Given 240, widthOpt := Given 32\<rparr>)) = 1080
   \<and> complete (validateSettings (noSettings\<lparr>fpsOpt := Given 240, widthOpt := Given 32\<rparr>))
   \<and> fileNameValue (validateSettings (noSettings\<lparr>fileNameOpt := Undefined\<rparr>)) = None"
  using validateSettings_total [of "noSettings\<lparr>fpsOpt := Given 240, widthOpt := Given 32\<rparr>"]
    validateSettings_total [of "noSettings\<lparr>fileNameOpt := Undefined\<rparr>"]
  by (simp add: noSettings_def clampedOr_def)


section \<open>Timeline validation\<close>

text \<open>
  \<^verbatim>\<open>TimelineDataTransformer.validateTimelineData\<close> collects messages in a fresh array and
  only reads its argument. \<open>falsy\<close> is \<^verbatim>\<open>!s\<close> on an optional string: absent or empty.
\<close>

definition falsy :: "string option \<Rightarrow> bool" where
  "falsy s = (case s of None \<Rightarrow> True | Some v \<Rightarrow> v = [])"

definition orUnknown :: "string \<Rightarrow> string" where
  "orUnknown s = (if s = [] then ''unknown'' else s)"

definition validateElement :: "ExportTrack \<Rightarrow> ExportElement \<Rightarrow> string list" where
  "validateElement tr e =
     (if elementId e = [] \<or> startTime e < 0 \<or> duration e \<le> 0
      then [''Invalid element: '' @ orUnknown (elementId e) @ '' in track '' @ trackName tr]
      else [])
     @ (if elementType e = MediaElement
        then (if falsy (mediaId e)
              then [''Media element '' @ elementId e @ '' missing mediaId''] else [])
           @ (if mediaFile e = None \<and> falsy (url e)
              then [''Media element '' @ elementId e @ '' missing file or URL''] else [])
        else [])
     @ (if elementType e = TextElement
        then (if falsy (content e)
              then [''Text element '' @ elementId e @ '' missing content''] else [])
        else [])"

definition validateTrack :: "ExportTrack \<Rightarrow> string list" where
  "validateTrack tr =
     (if trackId tr = [] \<or> trackName tr = []
      then [''Invalid track: '' @ orUnknown (trackId tr)] else [])
     @ concat (map (validateElement tr) (elements tr))"

definition totalElements :: "TimelineExportData \<Rightarrow> nat" where
  "totalElements d = foldl (\<lambda>sum tr. sum + length (elements tr)) 0 (tracks d)"

definition invalidProjectSettings :: "ProjectSettings option \<Rightarrow> bool" where
  "invalidProjectSettings s =
     (case s of None \<Rightarrow> True | Some p \<Rightarrow> projectWidth p = 0 \<or> projectHeight p = 0)"

definition validateTimelineData :: "TimelineExportData \<Rightarrow> string list" where
  "validateTimelineData d =
     (if tracks d = [] then [''No tracks found in timeline data''] else [])
     @ (if timelineDuration d \<le> 0 then [''Timeline duration must be greater than 0''] else [])
     @ (if totalElements d = 0
        then [''No elements found in timeline - add some media or text to export''] else [])
     @ (if invalidProjectSettings (projectSettings d) then [''Invalid project settings''] else [])
     @ concat (map validateTrack (tracks d))"

definition overTrimmed :: ExportElement where
  "overTrimmed = \<lparr>elementId = ''over'', elementName = ''Over'', elementType = TextElement,
     startTime = 0, duration = 2, trimStart = 3 / 2, trimEnd = 1,
     opacity = None, blendMode = None, mediaId = None, mediaType = None,
     mediaFile = None, url = None, content = Some ''x''\<rparr>"

definition tinyTimeline :: TimelineExportData where
  "tinyTimeline =
     \<lparr>tracks = [\<lparr>trackId = ''t0'', trackName = ''Text'', trackType = TextTrack,
                 elements = [overTrimmed], muted = False\<rparr>],
      timelineDuration = 2,
      projectSettings = Some \<lparr>projectWidth = 16, projectHeight = 9000, projectFps = 30\<rparr>\<rparr>"

lemma validateTrack_element:
  "e \<in> set (elements tr) \<Longrightarrow> validateElement tr e \<noteq> [] \<Longrightarrow> validateTrack tr \<noteq> []"
  by (auto simp add: validateTrack_def)

lemma validateTimelineData_track:
  "tr \<in> set (tracks d) \<Longrightarrow> validateTrack tr \<noteq> [] \<Longrightarrow> validateTimelineData d \<noteq> []"
  by (auto simp add: validateTimelineData_def)

lemma validateElement_bad:
  "startTime e < 0 \<or> duration e \<le> 0 \<or>
   (elementType e = MediaElement \<and> (falsy (mediaId e) \<or> (mediaFile e = None \<and> falsy (url e))))
   \<Longrightarrow> validateElement tr e \<noteq> []"
  by (auto simp add: validateElement_def)

text \<open>
  Claim C4. The claim has the validator report a trim sum that reaches the duration and a
  canvas outside 64..7680 by 64..4320. The validator reads neither \<^verbatim>\<open>trimStart\<close> nor
  \<^verbatim>\<open>trimEnd\<close>, tests the project size only for 0, and has no sample rate among its
  inputs: a timeline whose only element is trimmed by more than its duration, on a 16 by
  9000 canvas, passes with no message.
\<close>

theorem validateTimelineData_trim_counterexample:
  "validateTimelineData tinyTimeline = []
   \<and> trimStart overTrimmed + trimEnd overTrimmed \<ge> duration overTrimmed
   \<and> overTrimmed \<in> set (elements (hd (tracks tinyTimeline)))
   \<and> projectSettings tinyTimeline =
       Some \<lparr>projectWidth = 16, projectHeight = 9000, projectFps = 30\<rparr>"
  by (simp add: validateTimelineData_def validateTrack_def validateElement_def
      totalElements_def invalidProjectSettings_def falsy_def tinyTimeline_def overTrimmed_def)

text \<open>
  Claim C4, amended. The validator returns at least one message whenever the timeline has
  no tracks, its duration is not positive, its project settings are absent or have width
  or height 0, or some element has a negative start time, a duration that is not positive
  or, being a media element, no media id or neither a file nor a URL. It is a function of
  its argument and returns a new list, so the argument is not changed.
\<close>

theorem validateTimelineData_reports:
  assumes "tracks d = [] \<or> timelineDuration d \<le> 0 \<or> projectSettings d = None \<or>
     (\<exists>p. projectSettings d = Some p \<and> (projectWidth p = 0 \<or> projectHeight p = 0)) \<or>
     (\<exists>tr e. tr \<in> set (tracks d) \<and> e \<in> set (elements tr) \<and>
        (startTime e < 0 \<or> duration e \<le> 0 \<or>
         (elementType e = MediaElement \<and>
            (falsy (mediaId e) \<or> (mediaFile e = None \<and> falsy (url e))))))"
  shows "validateTimelineData d \<noteq> []"
proof -
  consider (a) "tracks d = []" | (b) "timelineDuration d \<le> 0"
    | (c) "invalidProjectSettings (projectSettings d)"
    | (e) tr e where "tr \<in> set (tracks d)" "e \<in> set (elements tr)"
        "startTime e < 0 \<or> duration e \<le> 0 \<or>
         (elementType e = MediaElement \<and>
            (falsy (mediaId e) \<or> (mediaFile e = None \<and> falsy (url e))))"
    using assms by (auto simp add: invalidProjectSettings_def)
  then show ?thesis
  proof cases
    case a
    then show ?thesis by (simp add: validateTimelineData_def)
  next
    case b
    then show ?thesis by (simp add: validateTimelineData_def)
  next
    case c
    then show ?thesis by (simp add: validateTimelineData_def)
  next
    case e
    have "validateElement tr e \<noteq> []" using e(3) by (rule validateElement_bad)
    then have "validateTrack tr \<noteq> []" using e(2) validateTrack_element by blast
    then show ?thesis using e(1) validateTimelineData_track by blast
  qed
qed

theorem validateTimelineData_reports_witness:
  "clipA \<lparr>startTime := - 1\<rparr> \<in> set (elements (clips \<lparr>elements := [clipA \<lparr>startTime := - 1\<rparr>]\<rparr>))
   \<and> validateTimelineData
        (sampleTimeline \<lparr>tracks := [clips \<lparr>elements := [clipA \<lparr>startTime := - 1\<rparr>]\<rparr>]\<rparr>) \<noteq> []"
proof -
  let ?e = "clipA \<lparr>startTime := - 1\<rparr>"
  let ?tr = "clips \<lparr>elements := [?e]\<rparr>"
  let ?d = "sampleTimeline \<lparr>tracks := [?tr]\<rparr>"
  have m: "?tr \<in> set (tracks ?d) \<and> ?e \<in> set (elements ?tr) \<and> startTime ?e < 0"
    by simp
  then have "validateTimelineData ?d \<noteq> []"
    by (intro validateTimelineData_reports) blast
  with m show ?thesis by simp
qed

section \<open>Media element renderer\<close>

text \<open>
  The canvas context is the state the renderers share. Its current transform is kept as a
  scale and a translation (the media renderer does not rotate); \<^verbatim>\<open>drawImage\<close> with a
  destination rectangle in user space records the rectangle it covers in device pixels.
  The arithmetic inside the canvas is taken as exact.

  A video element has its current time; assigning \<^verbatim>\<open>currentTime\<close> starts a seek, and
  \<open>seekRequests\<close> lists the assignments made. What the browser answers to a seek
  (\<^verbatim>\<open>seeked\<close>, \<^verbatim>\<open>error\<close>, or nothing within 1000 ms) is an input of the model.
\<close>

record DrawState =
  globalAlpha :: real
  globalCompositeOperation :: BlendMode
  scaleX :: real
  scaleY :: real
  translateX :: real
  translateY :: real

record DrawnImage =
  source :: string
  deviceX :: real
  deviceY :: real
  deviceWidth :: real
  deviceHeight :: real
  alpha :: real
  composite :: BlendMode

record Context2D =
  drawState :: DrawState
  savedStates :: "DrawState list"
  drawnImages :: "DrawnImage list"

record HTMLVideoElement =
  currentTime :: real
  paused :: bool
  seekRequests :: "real list"

datatype Media = VideoMedia HTMLVideoElement | ImageMedia

datatype SeekEvent = Seeked | SeekFailed | SeekTimedOut

datatype Settled = Resolved | Rejected string

record MediaRenderer =
  canvasContext :: Context2D
  mediaCache :: "string \<Rightarrow> Media option"

definition save :: "Context2D \<Rightarrow> Context2D" where
  "save ctx = ctx\<lparr>savedStates := drawState ctx # savedStates ctx\<rparr>"

definition restore :: "Context2D \<Rightarrow> Context2D" where
  "restore ctx =
     (case savedStates ctx of
        [] \<Rightarrow> ctx
      | s # ss \<Rightarrow> ctx\<lparr>drawState := s, savedStates := ss\<rparr>)"

definition scale :: "real \<Rightarrow> real \<Rightarrow> Context2D \<Rightarrow> Context2D" where
  "scale sx sy ctx =
     ctx\<lparr>drawState := (drawState ctx)
       \<lparr>scaleX := scaleX (drawState ctx) * sx, scaleY := scaleY (drawState ctx) * sy\<rparr>\<rparr>"

definition drawImage :: "string \<Rightarrow> real \<Rightarrow> real \<Rightarrow> real \<Rightarrow> real \<Rightarrow> Context2D \<Rightarrow> Context2D" where
  "drawImage src dx dy dw dh ctx =
     (let s = drawState ctx in
      ctx\<lparr>drawnImages := drawnImages ctx @
        [\<lparr>source = src,
          deviceX = scaleX s * dx + translateX s, deviceY = scaleY s * dy + translateY s,
          deviceWidth = scaleX s * dw, deviceHeight = scaleY s * dh,
          alpha = globalAlpha s, composite = globalCompositeOperation s\<rparr>]\<rparr>)"

definition applyElementProperties :: "ExportSettings \<Rightarrow> ExportElement \<Rightarrow> Context2D \<Rightarrow> Context2D" where
  "applyElementProperties settings e ctx =
     (let c1 = save ctx;
          c2 = (case opacity e of
                  None \<Rightarrow> c1
                | Some a \<Rightarrow> c1\<lparr>drawState := (drawState c1)\<lparr>globalAlpha := a\<rparr>\<rparr>);
          c3 = (case blendMode e of
                  None \<Rightarrow> c2
                | Some b \<Rightarrow> c2\<lparr>drawState := (drawState c2)\<lparr>globalCompositeOperation := b\<rparr>\<rparr>)
      in scale (resolution settings) (resolution settings) c3)"

definition restoreContext :: "Context2D \<Rightarrow> Context2D" where
  "restoreContext ctx = restore ctx"

definition seekVideo :: "HTMLVideoElement \<Rightarrow> real \<Rightarrow> SeekEvent \<Rightarrow> Settled \<times> HTMLVideoElement" where
  "seekVideo video time ev =
     (let tolerance = fdiv 1 60;
          timeDiff = \<bar>fsub (currentTime video) time\<bar>
      in if timeDiff < tolerance then (Resolved, video)
         else
           (let seeking = video\<lparr>paused := True, currentTime := time,
                               seekRequests := seekRequests video @ [time]\<rparr>
            in case ev of
                 Seeked \<Rightarrow> (Resolved, seeking)
               | SeekFailed \<Rightarrow> (Rejected ''Video seek failed'', seeking)
               | SeekTimedOut \<Rightarrow> (Rejected ''Video seek timeout'', seeking)))"

definition renderVideoToCanvas :: "ExportSettings \<Rightarrow> string \<Rightarrow> Context2D \<Rightarrow> Context2D" where
  "renderVideoToCanvas settings video ctx =
     (let canvasWidth = fmul (width settings) (resolution settings);
          canvasHeight = fmul (height settings) (resolution settings)
      in drawImage video 0 0 canvasWidth canvasHeight ctx)"

definition renderImage :: "ExportSettings \<Rightarrow> string \<Rightarrow> Context2D \<Rightarrow> Context2D" where
  "renderImage settings img ctx =
     (let canvasWidth = fmul (width settings) (resolution settings);
          canvasHeight = fmul (height settings) (resolution settings)
      in drawImage img 0 0 canvasWidth canvasHeight ctx)"

text \<open>
  \<^verbatim>\<open>loadMedia\<close> answers from the cache under the media id; otherwise an element with
  neither file nor URL yields \<^verbatim>\<open>null\<close>, and a video or an image is loaded and cached.
  \<open>loaded\<close> is what loading yields (\<open>None\<close>: the load failed or timed out).
\<close>

definition loadMedia ::
    "(ExportElement \<Rightarrow> Media option) \<Rightarrow> ExportElement \<Rightarrow> (string \<Rightarrow> Media option)
      \<Rightarrow> Media option \<times> (string \<Rightarrow> Media option)" where
  "loadMedia loaded e cache =
     (let cacheKey = (case mediaId e of None \<Rightarrow> [] | Some k \<Rightarrow> k) in
      case cache cacheKey of
        Some m \<Rightarrow> (Some m, cache)
      | None \<Rightarrow>
          if mediaFile e = None \<and> falsy (url e) then (None, cache)
          else if mediaType e = Some Video \<or> mediaType e = Some Image
          then (case loaded e of
                  None \<Rightarrow> (None, cache)
                | Some m \<Rightarrow> (Some m, cache(cacheKey := Some m)))
          else (None, cache))"

definition cacheKeyOf :: "ExportElement \<Rightarrow> string" where
  "cacheKeyOf e = (case mediaId e of None \<Rightarrow> [] | Some k \<Rightarrow> k)"

definition render ::
    "ExportSettings \<Rightarrow> (ExportElement \<Rightarrow> Media option) \<Rightarrow> SeekEvent \<Rightarrow> ExportElement \<Rightarrow> real
      \<Rightarrow> MediaRenderer \<Rightarrow> MediaRenderer" where
  "render settings loaded ev e timestamp r =
     (if \<not> isElementActive e timestamp then r
      else
        (case loadMedia loaded e (mediaCache r) of
           (None, cache) \<Rightarrow> r\<lparr>mediaCache := cache\<rparr>
         | (Some media, cache) \<Rightarrow>
             (let ctx = applyElementProperties settings e (canvasContext r);
                  elementTime = getElementTime e timestamp
              in case media of
                   VideoMedia video \<Rightarrow>
                     (case seekVideo video elementTime ev of
                        (Resolved, video') \<Rightarrow>
                          \<lparr>canvasContext = restoreContext
                             (renderVideoToCanvas settings (cacheKeyOf e) ctx),
                           mediaCache = cache(cacheKeyOf e := Some (VideoMedia video'))\<rparr>
                      | (Rejected err, video') \<Rightarrow>
                          \<lparr>canvasContext = ctx,
                           mediaCache = cache(cacheKeyOf e := Some (VideoMedia video'))\<rparr>)
                 | ImageMedia \<Rightarrow>
                     \<lparr>canvasContext = restoreContext (renderImage settings (cacheKeyOf e) ctx),
                      mediaCache = cache\<rparr>)))"

definition freshContext :: Context2D where
  "freshContext =
     \<lparr>drawState = \<lparr>globalAlpha = 1, globalCompositeOperation = SourceOver,
        scaleX = 1, scaleY = 1, translateX = 0, translateY = 0\<rparr>,
      savedStates = [], drawnImages = []\<rparr>"

definition halfSize :: ExportSettings where
  "halfSize = getDefaultSettings\<lparr>resolution := 1 / 2\<rparr>"

definition effectiveWidth :: "ExportSettings \<Rightarrow> int" where
  "effectiveWidth settings = mathRound (fmul (width settings) (resolution settings))"

definition effectiveHeight :: "ExportSettings \<Rightarrow> int" where
  "effectiveHeight settings = mathRound (fmul (height settings) (resolution settings))"

lemma seekVideo_reuse:
  "\<bar>fsub (currentTime v) t\<bar> < fdiv 1 60 \<Longrightarrow> seekVideo v t ev = (Resolved, v)"
  by (simp add: seekVideo_def Let_def)

lemma seekVideo_seek:
  "\<not> \<bar>fsub (currentTime v) t\<bar> < fdiv 1 60 \<Longrightarrow>
   snd (seekVideo v t ev) =
     v\<lparr>paused := True, currentTime := t, seekRequests := seekRequests v @ [t]\<rparr>
   \<and> (fst (seekVideo v t ev) = Resolved \<longleftrightarrow> ev = Seeked)"
  by (cases ev) (simp_all add: seekVideo_def Let_def)

lemma within_tolerance:
  assumes "\<bar>fsub a b\<bar> < fdiv 1 60"
  shows "\<bar>a - b\<bar> < 1 / 60"
proof (rule ccontr)
  assume "\<not> \<bar>a - b\<bar> < 1 / 60"
  then have "(1::real) / 60 \<le> \<bar>a - b\<bar>" by simp
  then have "fl (1 / 60) \<le> fl \<bar>a - b\<bar>" by (intro fl_mono_nonneg) simp_all
  then show False using assms by (simp add: fdiv_def fsub_def fl_abs)
qed

text \<open>
  Claim C7. The claim ties the reuse of the current frame to one output-frame period
  \<open>1 / fps_out\<close>. \<^verbatim>\<open>seekVideo\<close> does not know the output frame rate: its tolerance is
  the constant \<^verbatim>\<open>1 / 60\<close>. At 120 frames per second a video standing at 0 is reused for
  the element time \<open>1 / 64\<close>, which is further than \<open>1 / 120\<close> away.
\<close>

theorem seekVideo_tolerance_counterexample:
  "seekVideo \<lparr>currentTime = 0, paused = True, seekRequests = []\<rparr> (1 / 64) Seeked =
     (Resolved, \<lparr>currentTime = 0, paused = True, seekRequests = []\<rparr>)
   \<and> \<not> \<bar>0 - 1 / 64\<bar> \<le> (1::real) / 120"
  by (simp add: seekVideo_def Let_def farith fl_eval)

text \<open>
  Claim C7, amended. The decoder reuses its current frame exactly when the distance of its
  current time from the element time, as the source computes it, is below the fixed
  tolerance \<^verbatim>\<open>1 / 60\<close>, whatever the output frame rate; otherwise it pauses the video,
  assigns the element time (a seek) and succeeds only on \<^verbatim>\<open>seeked\<close>. For an output
  frame rate of at most 60 a reused frame is therefore within one output-frame period.
\<close>

theorem seekVideo_fixed_tolerance:
  "(\<bar>fsub (currentTime v) t\<bar> < fdiv 1 60 \<longrightarrow> seekVideo v t ev = (Resolved, v))
   \<and> (\<not> \<bar>fsub (currentTime v) t\<bar> < fdiv 1 60 \<longrightarrow>
        snd (seekVideo v t ev) =
          v\<lparr>paused := True, currentTime := t, seekRequests := seekRequests v @ [t]\<rparr>
        \<and> (fst (seekVideo v t ev) = Resolved \<longleftrightarrow> ev = Seeked))
   \<and> (seekRequests (snd (seekVideo v t ev)) = seekRequests v \<longleftrightarrow>
        \<bar>fsub (currentTime v) t\<bar> < fdiv 1 60)
   \<and> (\<forall>fpsOut. 0 < fpsOut \<and> fpsOut \<le> 60 \<and>
        seekRequests (snd (seekVideo v t ev)) = seekRequests v \<longrightarrow>
        \<bar>currentTime v - t\<bar> < 1 / fpsOut)"
proof -
  have iff: "seekRequests (snd (seekVideo v t ev)) = seekRequests v \<longleftrightarrow>
        \<bar>fsub (currentTime v) t\<bar> < fdiv 1 60"
    using seekVideo_reuse [of v t ev] seekVideo_seek [of v t ev]
    by (cases "\<bar>fsub (currentTime v) t\<bar> < fdiv 1 60") simp_all
  have period: "\<bar>currentTime v - t\<bar> < 1 / fpsOut"
    if "0 < fpsOut" "fpsOut \<le> 60" "seekRequests (snd (seekVideo v t ev)) = seekRequests v"
    for fpsOut :: real
  proof -
    have "\<bar>currentTime v - t\<bar> < 1 / 60" using that(3) iff within_tolerance by blast
    moreover have "(1::real) / 60 \<le> 1 / fpsOut"
      using that(1,2) by (simp add: field_simps)
    ultimately show ?thesis by simp
  qed
  show ?thesis
    using seekVideo_reuse [of v t ev] seekVideo_seek [of v t ev] iff period by blast
qed

theorem seekVideo_fixed_tolerance_witness:
  "fst (seekVideo \<lparr>currentTime = 0, paused = False, seekRequests = []\<rparr> (1 / 2) Seeked) = Resolved
   \<and> snd (seekVideo \<lparr>currentTime = 0, paused = False, seekRequests = []\<rparr> (1 / 2) Seeked) =
       \<lparr>currentTime = 1 / 2, paused = True, seekRequests = [1 / 2]\<rparr>
   \<and> \<not> \<bar>fsub 0 (1 / 2)\<bar> < fdiv 1 60"
proof -
  have n: "\<not> \<bar>fsub 0 (1 / 2)\<bar> < fdiv 1 60" by (simp add: farith fl_eval)
  show ?thesis
    using seekVideo_fixed_tolerance
      [of "\<lparr>currentTime = 0, paused = False, seekRequests = []\<rparr>" "1 / 2" Seeked] n
    by simp
qed


lemma render_image_device_rect:
  assumes "isElementActive e t"
    and "loadMedia loaded e (mediaCache r) = (Some ImageMedia, cache)"
    and "scaleX (drawState (canvasContext r)) = 1" "scaleY (drawState (canvasContext r)) = 1"
    and "translateX (drawState (canvasContext r)) = 0"
    and "translateY (drawState (canvasContext r)) = 0"
  shows "\<exists>a c. drawnImages (canvasContext (render settings loaded ev e t r)) =
     drawnImages (canvasContext r) @
       [\<lparr>source = cacheKeyOf e, deviceX = 0, deviceY = 0,
         deviceWidth = resolution settings * fmul (width settings) (resolution settings),
         deviceHeight = resolution settings * fmul (height settings) (resolution settings),
         alpha = a, composite = c\<rparr>]"
  using assms
  by (simp add: render_def Let_def applyElementProperties_def renderImage_def drawImage_def
      restoreContext_def restore_def save_def scale_def split: option.splits)

text \<open>
  Claim C6. \<^verbatim>\<open>applyElementProperties\<close> scales the context by the resolution multiplier and
  the media renderer then draws a rectangle whose size it has multiplied by the multiplier
  once more, so in device pixels the asset covers \<open>width * r * r\<close> by \<open>height * r * r\<close>
  (\<open>render_image_device_rect\<close>). With a 1920 by 1080 canvas and \<open>r = 1 / 2\<close> the
  surface is 960 by 540 and the image is drawn at \<open>(0, 0, 480, 270)\<close>. The text, subtitle
  and overlay renderers pass unscaled coordinates to the scaled context.
\<close>

theorem render_half_resolution:
  "drawnImages (canvasContext
     (render halfSize (\<lambda>e. Some ImageMedia) Seeked clipB 3
        \<lparr>canvasContext = freshContext, mediaCache = (\<lambda>k. None)\<rparr>)) =
     [\<lparr>source = ''m2'', deviceX = 0, deviceY = 0, deviceWidth = 480, deviceHeight = 270,
       alpha = 1, composite = SourceOver\<rparr>]
   \<and> effectiveWidth halfSize = 960 \<and> effectiveHeight halfSize = 540"
  by (simp add: render_def Let_def applyElementProperties_def renderImage_def drawImage_def
      restoreContext_def restore_def save_def scale_def loadMedia_def falsy_def cacheKeyOf_def
      isElementActive_def elementEndTime_def clipB_def freshContext_def halfSize_def
      getDefaultSettings_def effectiveWidth_def effectiveHeight_def mathRound_def farith fl_eval)

section \<open>Audio mixer\<close>

text \<open>
  An \<^verbatim>\<open>AudioBuffer\<close> holds one \<^verbatim>\<open>Float32Array\<close> per channel. Decoding an element's file
  and rendering a resampled copy are done by the browser: \<open>decodeAudioData\<close> yields the
  decoded buffer (\<open>None\<close>: fetching or decoding threw) and \<open>startRendering\<close> the
  rendering of a buffer at a length and rate. A \<^verbatim>\<open>new AudioBuffer\<close> is filled with zeros
  and is refused without a channel or a frame.
\<close>

record AudioBuffer =
  channelData :: "real list list"
  bufferLength :: nat
  bufferSampleRate :: real

record AudioEnv =
  decodeAudioData :: "ExportElement \<Rightarrow> AudioBuffer option"
  startRendering :: "AudioBuffer \<Rightarrow> nat \<Rightarrow> real \<Rightarrow> AudioBuffer"

definition bufferChannels :: "AudioBuffer \<Rightarrow> nat" where
  "bufferChannels b = length (channelData b)"

definition bufferDuration :: "AudioBuffer \<Rightarrow> real" where
  "bufferDuration b = fdiv (real (bufferLength b)) (bufferSampleRate b)"

definition newAudioBuffer :: "real \<Rightarrow> int \<Rightarrow> real \<Rightarrow> string + AudioBuffer" where
  "newAudioBuffer channels len rate =
     (if trunc channels < 1 \<or> len < 1 then Inl ''NotSupportedError''
      else Inr \<lparr>channelData = replicate (nat (trunc channels)) (replicate (nat len) 0),
                bufferLength = nat len, bufferSampleRate = rate\<rparr>)"

definition isAudioBearing :: "ExportElement \<Rightarrow> bool" where
  "isAudioBearing el \<longleftrightarrow>
     elementType el = MediaElement \<and> (mediaType el = Some Audio \<or> mediaType el = Some Video)"

definition audioTracks :: "TimelineExportData \<Rightarrow> ExportTrack list" where
  "audioTracks d =
     filter (\<lambda>tr. trackType tr = AudioTrack \<or> list_ex isAudioBearing (elements tr)) (tracks d)"

definition processedBuffer :: "AudioEnv \<Rightarrow> AudioBuffer \<Rightarrow> ExportElement \<Rightarrow> AudioBuffer option" where
  "processedBuffer env outputBuffer el =
     (if mediaFile el = None \<and> falsy (url el) then None
      else
        (case decodeAudioData env el of
           None \<Rightarrow> None
         | Some sourceBuffer \<Rightarrow>
             if bufferSampleRate sourceBuffer \<noteq> bufferSampleRate outputBuffer
             then (let n = \<lceil>fmul (bufferDuration sourceBuffer) (bufferSampleRate outputBuffer)\<rceil>
                   in if n < 1 then None
                      else Some (startRendering env sourceBuffer (nat n)
                                   (bufferSampleRate outputBuffer)))
             else Some sourceBuffer))"

definition clampSample :: "real \<Rightarrow> real" where
  "clampSample v = (let v1 = (if v > 1 then 1 else v) in if v1 < - 1 then - 1 else v1)"

text \<open>
  \<^verbatim>\<open>outputData[k] += s\<close> on a \<^verbatim>\<open>Float32Array\<close>: the sum is a double and is stored as a
  float; at a negative index the read is \<^verbatim>\<open>undefined\<close> and the write is dropped.
\<close>

definition addClamped :: "real list \<Rightarrow> int \<Rightarrow> real \<Rightarrow> real list" where
  "addClamped outputData k s =
     (if k < 0 then outputData
      else outputData[nat k := clampSample (f32 (fadd (outputData ! nat k) s))])"

definition mixStep :: "int \<Rightarrow> int \<Rightarrow> real list \<Rightarrow> int \<Rightarrow> real list \<Rightarrow> real list" where
  "mixStep startSample trimStartSamples sourceData i outputData =
     (let sourceIndex = trimStartSamples + i
      in if sourceIndex < int (length sourceData) \<and> sourceIndex \<ge> 0
         then addClamped outputData (startSample + i) (sourceData ! nat sourceIndex)
         else outputData)"

function mixSamples :: "int \<Rightarrow> int \<Rightarrow> int \<Rightarrow> real list \<Rightarrow> int \<Rightarrow> real list \<Rightarrow> real list" where
  "mixSamples startSample trimStartSamples sourceDuration sourceData i outputData =
     (if i < sourceDuration \<and> startSample + i < int (length outputData)
      then mixSamples startSample trimStartSamples sourceDuration sourceData (i + 1)
             (mixStep startSample trimStartSamples sourceData i outputData)
      else outputData)"
  by pat_completeness auto
termination
  by (relation "measure (\<lambda>(s, ts, d, src, i, out). nat (d - i))") auto

declare mixSamples.simps [simp del]

definition mixInto :: "AudioBuffer \<Rightarrow> AudioBuffer \<Rightarrow> ExportElement \<Rightarrow> AudioBuffer" where
  "mixInto outputBuffer processed el =
     (let startSample = \<lfloor>fmul (startTime el) (bufferSampleRate outputBuffer)\<rfloor>;
          trimStartSamples = \<lfloor>fmul (trimStart el) (bufferSampleRate outputBuffer)\<rfloor>;
          trimEndSamples = \<lfloor>fmul (trimEnd el) (bufferSampleRate outputBuffer)\<rfloor>;
          sourceDuration = int (bufferLength processed) - trimStartSamples - trimEndSamples
      in outputBuffer\<lparr>channelData :=
           map (\<lambda>channel.
                  if channel < min (bufferChannels outputBuffer) (bufferChannels processed)
                  then mixSamples startSample trimStartSamples sourceDuration
                         (channelData processed ! channel) 0 (channelData outputBuffer ! channel)
                  else channelData outputBuffer ! channel)
             [0..<bufferChannels outputBuffer]\<rparr>)"

definition mixAudioElement :: "AudioEnv \<Rightarrow> AudioBuffer \<Rightarrow> ExportElement \<Rightarrow> AudioBuffer" where
  "mixAudioElement env outputBuffer el =
     (case processedBuffer env outputBuffer el of
        None \<Rightarrow> outputBuffer
      | Some processed \<Rightarrow> mixInto outputBuffer processed el)"

definition mixTrack :: "AudioEnv \<Rightarrow> AudioBuffer \<Rightarrow> ExportTrack \<Rightarrow> AudioBuffer" where
  "mixTrack env audioBuffer tr =
     (if muted tr then audioBuffer
      else foldl (\<lambda>b el. if isAudioBearing el then mixAudioElement env b el else b)
             audioBuffer (elements tr))"

definition processAudio ::
    "AudioEnv \<Rightarrow> ExportSettings \<Rightarrow> TimelineExportData \<Rightarrow> string + AudioBuffer option" where
  "processAudio env settings timelineData =
     (if audioTracks timelineData = [] then Inr None
      else
        (case newAudioBuffer (numberOfChannels settings)
                \<lceil>fmul (timelineDuration timelineData) (sampleRate settings)\<rceil>
                (sampleRate settings) of
           Inl err \<Rightarrow> Inl err
         | Inr audioBuffer \<Rightarrow>
             Inr (Some (foldl (mixTrack env) audioBuffer (audioTracks timelineData)))))"

definition wellFormed :: "AudioBuffer \<Rightarrow> bool" where
  "wellFormed b \<longleftrightarrow> list_all (\<lambda>c. length c = bufferLength b) (channelData b)"

definition inRange :: "AudioBuffer \<Rightarrow> bool" where
  "inRange b \<longleftrightarrow> list_all (list_all (\<lambda>v. - 1 \<le> v \<and> v \<le> 1)) (channelData b)"


lemma length_addClamped: "length (addClamped out k s) = length out"
  by (simp add: addClamped_def)

lemma length_mixStep: "length (mixStep s ts src i out) = length out"
  by (simp add: mixStep_def Let_def length_addClamped)


lemma nth_mixStep:
  assumes "j < length out"
  shows "mixStep s ts src i out ! j =
     (if int j = s + i \<and> 0 \<le> ts + i \<and> ts + i < int (length src)
      then clampSample (f32 (fadd (out ! j) (src ! nat (ts + i))))
      else out ! j)"
proof (cases "int j = s + i")
  case True
  then have "nat (s + i) = j" "\<not> s + i < 0" by simp_all
  then show ?thesis using assms True by (auto simp add: mixStep_def Let_def addClamped_def)
next
  case False
  then have "s + i \<ge> 0 \<Longrightarrow> nat (s + i) \<noteq> j" by auto
  then show ?thesis using False by (auto simp add: mixStep_def Let_def addClamped_def)
qed

lemma nth_mixSamples:
  assumes "j < length out"
  shows "mixSamples s ts d src i out ! j =
     (if i \<le> int j - s \<and> int j - s < d \<and> 0 \<le> ts + (int j - s) \<and>
         ts + (int j - s) < int (length src)
      then clampSample (f32 (fadd (out ! j) (src ! nat (ts + (int j - s)))))
      else out ! j)"
  using assms
proof (induction s ts d src i out rule: mixSamples.induct)
  case (1 s ts d src i out)
  show ?case
  proof (cases "i < d \<and> s + i < int (length out)")
    case True
    have len: "j < length (mixStep s ts src i out)" using "1.prems" by (simp add: length_mixStep)
    have step: "mixSamples s ts d src i out ! j =
        mixSamples s ts d src (i + 1) (mixStep s ts src i out) ! j"
      using True by (subst mixSamples.simps) simp
    show ?thesis
    proof (cases "int j = s + i")
      case eq: True
      then show ?thesis
        unfolding step "1.IH" [OF True len] using True "1.prems"
        by (simp add: nth_mixStep)
    next
      case False
      then show ?thesis
        unfolding step "1.IH" [OF True len] using "1.prems"
        by (auto simp add: nth_mixStep)
    qed
  next
    case False
    have "mixSamples s ts d src i out = out" using False by (subst mixSamples.simps) auto
    moreover have "\<not> (i \<le> int j - s \<and> int j - s < d)" using False "1.prems" by auto
    ultimately show ?thesis by auto
  qed
qed



definition silence :: "ExportSettings \<Rightarrow> TimelineExportData \<Rightarrow> AudioBuffer" where
  "silence settings d =
     \<lparr>channelData = replicate (nat (trunc (numberOfChannels settings)))
        (replicate (nat \<lceil>fmul (timelineDuration d) (sampleRate settings)\<rceil>) 0),
      bufferLength = nat \<lceil>fmul (timelineDuration d) (sampleRate settings)\<rceil>,
      bufferSampleRate = sampleRate settings\<rparr>"






definition mixable :: "nat \<Rightarrow> nat \<Rightarrow> real \<Rightarrow> AudioBuffer \<Rightarrow> bool" where
  "mixable n len rate b \<longleftrightarrow>
     bufferChannels b = n \<and> bufferLength b = len \<and> bufferSampleRate b = rate \<and>
     wellFormed b \<and> inRange b"



lemma mixable_silence:
  "mixable (nat (trunc (numberOfChannels settings)))
     (nat \<lceil>fmul (timelineDuration d) (sampleRate settings)\<rceil>) (sampleRate settings)
     (silence settings d)"
  by (simp add: mixable_def silence_def bufferChannels_def wellFormed_def inRange_def
      list_all_iff)










definition tone :: ExportElement where
  "tone = \<lparr>elementId = ''tone'', elementName = ''Tone'', elementType = MediaElement,
     startTime = 1 / 4, duration = 1 / 2, trimStart = 1 / 8, trimEnd = 0,
     opacity = None, blendMode = None, mediaId = Some ''a1'', mediaType = Some Audio,
     mediaFile = Some (File ''tone.wav''), url = None, content = None\<rparr>"

definition toneTimeline :: TimelineExportData where
  "toneTimeline =
     \<lparr>tracks = [\<lparr>trackId = ''a0'', trackName = ''Audio'', trackType = AudioTrack,
                 elements = [tone, tone], muted = False\<rparr>],
      timelineDuration = 1,
      projectSettings = Some \<lparr>projectWidth = 1920, projectHeight = 1080, projectFps = 30\<rparr>\<rparr>"

definition toneBuffer :: AudioBuffer where
  "toneBuffer = \<lparr>channelData = [[1 / 4, 1 / 2, 3 / 4, - 1 / 4]], bufferLength = 4,
     bufferSampleRate = 8\<rparr>"

definition toneEnv :: AudioEnv where
  "toneEnv = \<lparr>decodeAudioData = (\<lambda>el. Some toneBuffer), startRendering = (\<lambda>b n r. b)\<rparr>"

definition lowRate :: ExportSettings where
  "lowRate = getDefaultSettings\<lparr>sampleRate := 8\<rparr>"



text \<open>
  Property X2. Mixing an element changes no sample outside its window: a channel the
  source does not have, and a frame before the element's offset or at or after the
  offset plus the effective length, keep their values.
\<close>

theorem mix_leaves_rest:
  assumes "wellFormed out" "c < bufferChannels out" "j < bufferLength out"
    and "bufferChannels p \<le> c
       \<or> int j < \<lfloor>fmul (startTime el) (bufferSampleRate out)\<rfloor>
       \<or> \<lfloor>fmul (startTime el) (bufferSampleRate out)\<rfloor>
            + (int (bufferLength p) - \<lfloor>fmul (trimStart el) (bufferSampleRate out)\<rfloor>
               - \<lfloor>fmul (trimEnd el) (bufferSampleRate out)\<rfloor>) \<le> int j"
  shows "channelData (mixInto out p el) ! c ! j = channelData out ! c ! j"
proof (cases "c < bufferChannels p")
  case False
  then show ?thesis using assms(2) by (simp add: mixInto_def Let_def)
next
  case True
  define s where "s = \<lfloor>fmul (startTime el) (bufferSampleRate out)\<rfloor>"
  define ts where "ts = \<lfloor>fmul (trimStart el) (bufferSampleRate out)\<rfloor>"
  define te where "te = \<lfloor>fmul (trimEnd el) (bufferSampleRate out)\<rfloor>"
  have w: "int j < s \<or> s + (int (bufferLength p) - ts - te) \<le> int j"
    using assms(4) True unfolding s_def ts_def te_def by linarith
  have lo: "length (channelData out ! c) = bufferLength out"
    using assms(1,2) unfolding wellFormed_def bufferChannels_def by (simp add: list_all_length)
  have j: "j < length (channelData out ! c)" using assms(3) lo by simp
  have m: "channelData (mixInto out p el) ! c =
      mixSamples s ts (int (bufferLength p) - ts - te) (channelData p ! c) 0 (channelData out ! c)"
    using True assms(2) by (simp add: mixInto_def Let_def s_def ts_def te_def)
  have n: "\<not> (0 \<le> int j - s \<and> int j - s < int (bufferLength p) - ts - te \<and>
      0 \<le> ts + (int j - s) \<and> ts + (int j - s) < int (length (channelData p ! c)))"
    using w by linarith
  show ?thesis
    unfolding m
    nth_mixSamples [OF j, of s ts "int (bufferLength p) - ts - te" "channelData p ! c" 0]
    using n by (simp only: if_False)
qed

theorem mix_leaves_rest_witness:
  "wellFormed (silence lowRate toneTimeline)
   \<and> channelData (mixInto (silence lowRate toneTimeline) toneBuffer tone) ! 1 ! 3 =
       channelData (silence lowRate toneTimeline) ! 1 ! 3"
proof -
  have w: "wellFormed (silence lowRate toneTimeline)"
    using mixable_silence [of lowRate toneTimeline] by (simp add: mixable_def)
  have c: "1 < bufferChannels (silence lowRate toneTimeline)"
    "3 < bufferLength (silence lowRate toneTimeline)"
    "bufferChannels toneBuffer \<le> 1"
    by (simp_all add: silence_def bufferChannels_def lowRate_def getDefaultSettings_def
        toneTimeline_def toneBuffer_def trunc_def farith fl_eval)
  show ?thesis using mix_leaves_rest [OF w c(1,2), of toneBuffer tone] c(3) w by simp
qed

section \<open>Encoder driver\<close>

text \<open>
  \<^verbatim>\<open>VideoExportEngine.processVideo\<close> and \<^verbatim>\<open>export\<close>. What the run observes of its
  surroundings is an input: whether the abort signal is set when iteration \<open>frame\<close>
  begins, whether the wait for the encoder's queue before that frame ends, whether
  rendering the frame throws (the fallback canvas is encoded then), whether
  \<^verbatim>\<open>new VideoFrame\<close> or \<^verbatim>\<open>encoder.encode\<close> throws for that frame and with which
  message, whether \<^verbatim>\<open>encoder.flush\<close> rejects, the output callback the encoder makes for
  each frame it was given, and the answers of the capability checks. A
  \<^verbatim>\<open>VideoEncoder\<close> makes at most one output callback for a frame submitted to it, and
  has made them all when \<^verbatim>\<open>flush\<close> resolves: the chunks counted at the check after the
  loop are among those of the frames \<open>0, \<dots>, N\<close>. The calls that succeed on the encoder,
  the progress events and the messages given to \<^verbatim>\<open>debugLogger.error\<close> are collected in
  order. A run returns, throws, or waits for ever on a queue that never drains. The
  fields of a progress event that depend on the wall clock are left out.
\<close>

datatype Stage = Initializing | Processing | Finalizing | Complete | Failed

record ExportProgress =
  currentFrame :: int
  totalFrames :: int
  percentage :: real
  stage :: Stage
  errorMessage :: "string option"

datatype Canvas = Rendered int | Fallback

record EncodedFrame =
  canvas :: Canvas
  timestamp :: int
  frameDuration :: int
  keyFrame :: bool

datatype EncoderCall = Configure | Encode EncodedFrame | Flush | Close

record Chunk =
  hasMeta :: bool
  addThrows :: bool

datatype LogEntry =
    VideoPacketError | FrameMismatch int int | VideoProcessingFailed string | ExportFailed string

record DriverEnv =
  aborted :: "int \<Rightarrow> bool"
  queueDrains :: "int \<Rightarrow> bool"
  renderFails :: "int \<Rightarrow> bool"
  videoFrameThrows :: "int \<Rightarrow> string option"
  encodeThrows :: "int \<Rightarrow> string option"
  flushRejects :: "string option"
  encoderOutput :: "int \<Rightarrow> Chunk option"
  webCodecsSupported :: bool
  videoConfigSupported :: bool
  audioConfigSupported :: bool
  bufferAvailable :: bool

record VideoRun =
  encoderCalls :: "EncoderCall list"
  progressEvents :: "ExportProgress list"
  errorLog :: "LogEntry list"

datatype Completion = Returned | Threw string | Hung

definition emitRenderProgress :: "int \<Rightarrow> int \<Rightarrow> ExportProgress" where
  "emitRenderProgress frame nFrames =
     \<lparr>currentFrame = frame, totalFrames = nFrames,
      percentage = fmul (fdiv (of_int frame) (of_int nFrames)) 100,
      stage = Processing, errorMessage = None\<rparr>"

definition videoFrame :: "DriverEnv \<Rightarrow> ExportSettings \<Rightarrow> int \<Rightarrow> EncodedFrame" where
  "videoFrame env settings frame =
     \<lparr>canvas = (if renderFails env frame then Fallback else Rendered frame),
      timestamp = \<lfloor>fmul (fdiv (of_int frame) (fps settings)) 1000000\<rfloor>,
      frameDuration = \<lfloor>fdiv 1000000 (fps settings)\<rfloor>,
      keyFrame = (frem (of_int frame) (fmul 3 (fps settings)) = 0)\<rparr>"

definition encodeAndReport :: "DriverEnv \<Rightarrow> ExportSettings \<Rightarrow> int \<Rightarrow> int \<Rightarrow> VideoRun \<Rightarrow> VideoRun" where
  "encodeAndReport env settings nFrames frame run =
     run\<lparr>encoderCalls := encoderCalls run @ [Encode (videoFrame env settings frame)],
         progressEvents := progressEvents run @
           (if frame mod 10 = 0 \<or> frame = nFrames then [emitRenderProgress frame nFrames] else [])\<rparr>"

function frameLoop ::
    "DriverEnv \<Rightarrow> ExportSettings \<Rightarrow> int \<Rightarrow> int \<Rightarrow> VideoRun \<Rightarrow> Completion \<times> VideoRun" where
  "frameLoop env settings nFrames frame run =
     (if frame \<le> nFrames
      then if aborted env frame then (Threw ''User aborted rendering'', run)
           else if \<not> queueDrains env frame then (Hung, run)
           else (case videoFrameThrows env frame of
                   Some err \<Rightarrow> (Threw err, run)
                 | None \<Rightarrow>
                     (case encodeThrows env frame of
                        Some err \<Rightarrow> (Threw err, run)
                      | None \<Rightarrow>
                          frameLoop env settings nFrames (frame + 1)
                            (encodeAndReport env settings nFrames frame run)))
      else (Returned, run))"
  by pat_completeness auto
termination
  by (relation "measure (\<lambda>(env, settings, nFrames, frame, run). nat (nFrames + 1 - frame))") auto

declare frameLoop.simps [simp del]

text \<open>
  The output callbacks made for the frames \<open>0, \<dots>, N\<close>, and the value of the counter
  \<^verbatim>\<open>encodedChunks\<close> after them: a callback counts when it has metadata and adding its
  packet does not throw.
\<close>

definition emitted :: "DriverEnv \<Rightarrow> int \<Rightarrow> Chunk list" where
  "emitted env nFrames =
     concat (map (\<lambda>frame. case encoderOutput env frame of None \<Rightarrow> [] | Some c \<Rightarrow> [c])
       [0..nFrames])"

definition encodedChunks :: "DriverEnv \<Rightarrow> int \<Rightarrow> int" where
  "encodedChunks env nFrames =
     int (length (filter (\<lambda>c. hasMeta c \<and> \<not> addThrows c) (emitted env nFrames)))"

definition processVideo :: "DriverEnv \<Rightarrow> ExportSettings \<Rightarrow> int \<Rightarrow> Completion \<times> VideoRun" where
  "processVideo env settings nFrames =
     (case frameLoop env settings nFrames 0
             \<lparr>encoderCalls = [Configure], progressEvents = [], errorLog = []\<rparr> of
        (Returned, run) \<Rightarrow>
          (case flushRejects env of
             Some err \<Rightarrow>
               (Threw err, run\<lparr>errorLog := errorLog run @ [VideoProcessingFailed err],
                               encoderCalls := encoderCalls run @ [Close]\<rparr>)
           | None \<Rightarrow>
               (let flushed = run\<lparr>encoderCalls := encoderCalls run @ [Flush],
                      errorLog := errorLog run @
                        map (\<lambda>c. VideoPacketError)
                          (filter (\<lambda>c. hasMeta c \<and> addThrows c) (emitted env nFrames))\<rparr>;
                    checked =
                      (if encodedChunks env nFrames < nFrames + 1
                       then flushed\<lparr>errorLog := errorLog flushed @
                              [FrameMismatch (nFrames + 1) (encodedChunks env nFrames)]\<rparr>
                       else flushed)
                in (Returned, checked\<lparr>encoderCalls := encoderCalls checked @ [Close]\<rparr>)))
      | (Threw err, run) \<Rightarrow>
          (Threw err, run\<lparr>errorLog := errorLog run @ [VideoProcessingFailed err],
                          encoderCalls := encoderCalls run @ [Close]\<rparr>)
      | (Hung, run) \<Rightarrow> (Hung, run))"

definition hasAudioTracks :: "TimelineExportData \<Rightarrow> bool" where
  "hasAudioTracks d =
     list_ex (\<lambda>tr. trackType tr = AudioTrack \<or>
                (trackType tr = MediaTrack \<and> list_ex isAudioBearing (elements tr)))
       (tracks d)"

definition initializingEvent :: ExportProgress where
  "initializingEvent =
     \<lparr>currentFrame = 0, totalFrames = 0, percentage = 0, stage = Initializing,
      errorMessage = None\<rparr>"

definition finalizingEvent :: "int \<Rightarrow> ExportProgress" where
  "finalizingEvent nFrames =
     \<lparr>currentFrame = nFrames, totalFrames = nFrames, percentage = 100, stage = Finalizing,
      errorMessage = None\<rparr>"

definition completeEvent :: "int \<Rightarrow> ExportProgress" where
  "completeEvent nFrames =
     \<lparr>currentFrame = nFrames, totalFrames = nFrames, percentage = 100, stage = Complete,
      errorMessage = None\<rparr>"

definition failedEvent :: "string \<Rightarrow> ExportProgress" where
  "failedEvent msg =
     \<lparr>currentFrame = 0, totalFrames = 0, percentage = 0, stage = Failed,
      errorMessage = Some msg\<rparr>"

text \<open>The \<^verbatim>\<open>catch\<close> branch of \<^verbatim>\<open>export\<close>: log, emit the error event, rethrow.\<close>

definition caught ::
    "ExportProgress list \<Rightarrow> LogEntry list \<Rightarrow> string
      \<Rightarrow> Completion \<times> ExportProgress list \<times> LogEntry list" where
  "caught events logged msg =
     (Threw msg, events @ [failedEvent msg], logged @ [ExportFailed msg])"

definition export ::
    "DriverEnv \<Rightarrow> AudioEnv \<Rightarrow> ExportSettings \<Rightarrow> TimelineExportData
      \<Rightarrow> Completion \<times> ExportProgress list \<times> LogEntry list" where
  "export env audioEnv settings timelineData =
     (if \<not> webCodecsSupported env
      then caught [initializingEvent] [] ''WebCodecs is not supported in this browser''
      else if \<not> videoConfigSupported env
      then caught [initializingEvent] [] ''No supported video encoder configuration found''
      else
        (let nFrames = \<lceil>fmul (timelineDuration timelineData) (fps settings)\<rceil> in
         case processVideo env settings nFrames of
           (Hung, run) \<Rightarrow> (Hung, initializingEvent # progressEvents run, errorLog run)
         | (Threw err, run) \<Rightarrow>
             caught (initializingEvent # progressEvents run) (errorLog run) err
         | (Returned, run) \<Rightarrow>
             (case (if audioConfigSupported env \<and> hasAudioTracks timelineData
                    then processAudio audioEnv settings timelineData else Inr None) of
                Inl err \<Rightarrow> caught (initializingEvent # progressEvents run) (errorLog run) err
              | Inr mixed \<Rightarrow>
                  if \<not> bufferAvailable env
                  then caught (initializingEvent # progressEvents run @ [finalizingEvent nFrames])
                         (errorLog run) ''Failed to get output buffer''
                  else (Returned,
                        initializingEvent # progressEvents run @
                          [finalizingEvent nFrames, completeEvent nFrames],
                        errorLog run))))"

text \<open>Iteration \<open>frame\<close> of the loop reaches its end: the frame is encoded.\<close>

definition proceeds :: "DriverEnv \<Rightarrow> int \<Rightarrow> bool" where
  "proceeds env frame \<longleftrightarrow>
     \<not> aborted env frame \<and> queueDrains env frame \<and> videoFrameThrows env frame = None \<and>
     encodeThrows env frame = None"

lemma frameLoop_step:
  assumes "frame \<le> nFrames" "proceeds env frame"
  shows "frameLoop env settings nFrames frame run =
     frameLoop env settings nFrames (frame + 1) (encodeAndReport env settings nFrames frame run)"
  using assms by (subst frameLoop.simps) (simp add: proceeds_def)

lemma frameLoop_stop:
  assumes "\<not> (frame \<le> nFrames \<and> proceeds env frame)"
  shows "\<exists>c. frameLoop env settings nFrames frame run = (c, run) \<and>
     (c = Returned \<longrightarrow> nFrames < frame)"
  using assms by (subst frameLoop.simps) (auto simp add: proceeds_def split: option.splits)

lemma frameLoop_trace:
  "\<exists>m. frame - 1 \<le> m \<and> (m \<le> nFrames \<or> m = frame - 1) \<and>
     (fst (frameLoop env settings nFrames frame run) = Returned \<longrightarrow> nFrames \<le> m) \<and>
     snd (frameLoop env settings nFrames frame run) =
       run\<lparr>encoderCalls := encoderCalls run @ map (\<lambda>k. Encode (videoFrame env settings k)) [frame..m],
           progressEvents := progressEvents run @
             map (\<lambda>k. emitRenderProgress k nFrames)
               (filter (\<lambda>k. k mod 10 = 0 \<or> k = nFrames) [frame..m])\<rparr>"
proof (induction env settings nFrames frame run rule: frameLoop.induct)
  case (1 env settings nFrames frame run)
  show ?case
  proof (cases "frame \<le> nFrames \<and> proceeds env frame")
    case True
    then obtain m where m: "frame \<le> m" "m \<le> nFrames \<or> m = frame"
      "fst (frameLoop env settings nFrames (frame + 1)
             (encodeAndReport env settings nFrames frame run)) = Returned \<longrightarrow> nFrames \<le> m"
      "snd (frameLoop env settings nFrames (frame + 1)
             (encodeAndReport env settings nFrames frame run)) =
       (encodeAndReport env settings nFrames frame run)
         \<lparr>encoderCalls := encoderCalls (encodeAndReport env settings nFrames frame run) @
            map (\<lambda>k. Encode (videoFrame env settings k)) [frame + 1..m],
          progressEvents := progressEvents (encodeAndReport env settings nFrames frame run) @
             map (\<lambda>k. emitRenderProgress k nFrames)
               (filter (\<lambda>k. k mod 10 = 0 \<or> k = nFrames) [frame + 1..m])\<rparr>"
      using "1.IH" by (auto simp add: proceeds_def)
    have step: "frameLoop env settings nFrames frame run =
        frameLoop env settings nFrames (frame + 1) (encodeAndReport env settings nFrames frame run)"
      using True by (intro frameLoop_step) simp_all
    have u: "[frame..m] = frame # [frame + 1..m]" using m(1) by (simp add: upto_rec1)
    show ?thesis
    proof (intro exI [of _ m] conjI)
      show "frame - 1 \<le> m" using m(1) by simp
      show "m \<le> nFrames \<or> m = frame - 1" using m(2) True by auto
      show "fst (frameLoop env settings nFrames frame run) = Returned \<longrightarrow> nFrames \<le> m"
        unfolding step using m(3) .
      show "snd (frameLoop env settings nFrames frame run) =
         run\<lparr>encoderCalls := encoderCalls run @ map (\<lambda>k. Encode (videoFrame env settings k)) [frame..m],
           progressEvents := progressEvents run @
             map (\<lambda>k. emitRenderProgress k nFrames)
               (filter (\<lambda>k. k mod 10 = 0 \<or> k = nFrames) [frame..m])\<rparr>"
        unfolding step m(4) u by (simp add: encodeAndReport_def)
    qed
  next
    case False
    then obtain c where eq: "frameLoop env settings nFrames frame run = (c, run)"
      and c: "c = Returned \<longrightarrow> nFrames < frame"
      using frameLoop_stop by blast
    have "snd (frameLoop env settings nFrames frame run) = run"
      "fst (frameLoop env settings nFrames frame run) = Returned \<longrightarrow> nFrames \<le> frame - 1"
      unfolding eq using c by auto
    then show ?thesis by (intro exI [of _ "frame - 1"]) simp
  qed
qed

lemma frameLoop_completes:
  assumes "\<forall>k. frame \<le> k \<and> k \<le> nFrames \<longrightarrow> proceeds env k"
  shows "frameLoop env settings nFrames frame run =
     (Returned,
      run\<lparr>encoderCalls := encoderCalls run @
             map (\<lambda>k. Encode (videoFrame env settings k)) [frame..nFrames],
          progressEvents := progressEvents run @
             map (\<lambda>k. emitRenderProgress k nFrames)
               (filter (\<lambda>k. k mod 10 = 0 \<or> k = nFrames) [frame..nFrames])\<rparr>)"
  using assms
proof (induction env settings nFrames frame run rule: frameLoop.induct)
  case (1 env settings nFrames frame run)
  show ?case
  proof (cases "frame \<le> nFrames")
    case True
    then have ok: "proceeds env frame" using "1.prems" by simp
    have step: "frameLoop env settings nFrames frame run =
        frameLoop env settings nFrames (frame + 1) (encodeAndReport env settings nFrames frame run)"
      using True ok by (rule frameLoop_step)
    have u: "[frame..nFrames] = frame # [frame + 1..nFrames]" using True by (simp add: upto_rec1)
    have "\<forall>k. frame + 1 \<le> k \<and> k \<le> nFrames \<longrightarrow> proceeds env k"
      using "1.prems" by auto
    then have "frameLoop env settings nFrames (frame + 1)
          (encodeAndReport env settings nFrames frame run) =
       (Returned,
        (encodeAndReport env settings nFrames frame run)
          \<lparr>encoderCalls := encoderCalls (encodeAndReport env settings nFrames frame run) @
             map (\<lambda>k. Encode (videoFrame env settings k)) [frame + 1..nFrames],
           progressEvents := progressEvents (encodeAndReport env settings nFrames frame run) @
             map (\<lambda>k. emitRenderProgress k nFrames)
               (filter (\<lambda>k. k mod 10 = 0 \<or> k = nFrames) [frame + 1..nFrames])\<rparr>)"
      using "1.IH" True ok by (simp add: proceeds_def)
    then show ?thesis
      unfolding step u by (simp add: encodeAndReport_def)
  next
    case False
    then show ?thesis by (subst frameLoop.simps) simp
  qed
qed

lemma processVideo_completes:
  assumes "\<forall>k. 0 \<le> k \<and> k \<le> nFrames \<longrightarrow> proceeds env k" "flushRejects env = None"
  shows "processVideo env settings nFrames =
     (Returned,
      \<lparr>encoderCalls = Configure # map (\<lambda>k. Encode (videoFrame env settings k)) [0..nFrames]
         @ [Flush, Close],
       progressEvents = map (\<lambda>k. emitRenderProgress k nFrames)
         (filter (\<lambda>k. k mod 10 = 0 \<or> k = nFrames) [0..nFrames]),
       errorLog = map (\<lambda>c. VideoPacketError)
           (filter (\<lambda>c. hasMeta c \<and> addThrows c) (emitted env nFrames))
         @ (if encodedChunks env nFrames < nFrames + 1
            then [FrameMismatch (nFrames + 1) (encodedChunks env nFrames)] else [])\<rparr>)"
  unfolding processVideo_def frameLoop_completes [OF assms(1)] by (simp add: Let_def assms(2))

lemma processVideo_flush_rejected:
  assumes "\<forall>k. 0 \<le> k \<and> k \<le> nFrames \<longrightarrow> proceeds env k" "flushRejects env = Some err"
  shows "processVideo env settings nFrames =
     (Threw err,
      \<lparr>encoderCalls = Configure # map (\<lambda>k. Encode (videoFrame env settings k)) [0..nFrames]
         @ [Close],
       progressEvents = map (\<lambda>k. emitRenderProgress k nFrames)
         (filter (\<lambda>k. k mod 10 = 0 \<or> k = nFrames) [0..nFrames]),
       errorLog = [VideoProcessingFailed err]\<rparr>)"
  unfolding processVideo_def frameLoop_completes [OF assms(1)] by (simp add: assms(2))

lemma length_emitted: "length (emitted env nFrames) \<le> length [0..nFrames]"
proof -
  have "length (concat (map (\<lambda>frame. case encoderOutput env frame of None \<Rightarrow> [] | Some c \<Rightarrow> [c]) ks))
      \<le> length ks" for ks
    by (induction ks) (auto split: option.splits)
  then show ?thesis unfolding emitted_def .
qed

lemma encodedChunks_bound:
  assumes "0 \<le> nFrames"
  shows "0 \<le> encodedChunks env nFrames \<and> encodedChunks env nFrames \<le> nFrames + 1"
proof -
  have "length (filter (\<lambda>c. hasMeta c \<and> \<not> addThrows c) (emitted env nFrames))
      \<le> length (emitted env nFrames)"
    by (rule length_filter_le)
  also have "\<dots> \<le> length [0..nFrames]" by (rule length_emitted)
  also have "\<dots> = nat (nFrames + 1)" by simp
  finally have "length (filter (\<lambda>c. hasMeta c \<and> \<not> addThrows c) (emitted env nFrames))
      \<le> nat (nFrames + 1)" .
  then have "int (length (filter (\<lambda>c. hasMeta c \<and> \<not> addThrows c) (emitted env nFrames)))
      \<le> nFrames + 1"
    using assms by linarith
  then show ?thesis by (simp add: encodedChunks_def)
qed

definition steady :: DriverEnv where
  "steady =
     \<lparr>aborted = (\<lambda>k. False), queueDrains = (\<lambda>k. True), renderFails = (\<lambda>k. False),
      videoFrameThrows = (\<lambda>k. None), encodeThrows = (\<lambda>k. None), flushRejects = None,
      encoderOutput = (\<lambda>k. Some \<lparr>hasMeta = True, addThrows = False\<rparr>),
      webCodecsSupported = True, videoConfigSupported = True, audioConfigSupported = True,
      bufferAvailable = True\<rparr>"

lemma videoFrame_123:
  "videoFrame steady getDefaultSettings 123 =
     \<lparr>canvas = Rendered 123, timestamp = 4099999, frameDuration = 33333, keyFrame = False\<rparr>"
  by (simp add: videoFrame_def steady_def getDefaultSettings_def frem_def trunc_def farith fl_eval)

text \<open>
  Claim C1. A run that is not aborted and whose queue drains submits the frames
  \<open>0, \<dots>, N\<close> in order (\<open>processVideo_completes\<close>), each with the duration
  \<open>floor (1e6 / fps)\<close> and a key frame when \<open>frame % (3 * fps)\<close> is 0. The timestamp is
  computed as \<^verbatim>\<open>Math.floor((frame / fps) * 1e6)\<close>: the quotient is rounded to a double
  before it is multiplied, and the floor of the product can fall one microsecond short of
  \<open>floor (frame * 1e6 / fps)\<close>. With the default 30 frames per second and a timeline of
  5 seconds, frame 123 is submitted with the timestamp 4099999 and not 4100000.
\<close>

theorem default_fps_timestamp:
  "encoderCalls (snd (processVideo steady getDefaultSettings 150)) ! 124 =
     Encode \<lparr>canvas = Rendered 123, timestamp = 4099999, frameDuration = 33333,
             keyFrame = False\<rparr>
   \<and> \<lfloor>123 * 1000000 / (30::real)\<rfloor> = 4100000
   \<and> \<lceil>fmul 5 (fps getDefaultSettings)\<rceil> = 150"
proof -
  have ok: "\<forall>k. 0 \<le> k \<and> k \<le> 150 \<longrightarrow> proceeds steady k" "flushRejects steady = None"
    by (simp_all add: steady_def proceeds_def)
  have "encoderCalls (snd (processVideo steady getDefaultSettings 150)) ! 124 =
      map (\<lambda>k. Encode (videoFrame steady getDefaultSettings k)) [0..150] ! 123"
    unfolding processVideo_completes [OF ok] by (simp add: nth_append)
  also have "\<dots> = Encode (videoFrame steady getDefaultSettings ([0..150] ! 123))"
    by (rule nth_map) simp
  also have "[0..150] ! 123 = (123::int)"
    using nth_upto [of 0 123 150] by simp
  finally have a: "encoderCalls (snd (processVideo steady getDefaultSettings 150)) ! 124 =
      Encode (videoFrame steady getDefaultSettings 123)" .
  have b: "\<lfloor>123 * 1000000 / (30::real)\<rfloor> = 4100000" by simp
  have c: "\<lceil>fmul 5 (fps getDefaultSettings)\<rceil> = 150"
    by (simp add: getDefaultSettings_def farith fl_eval)
  show ?thesis unfolding a videoFrame_123 using b c by simp
qed


text \<open>
  Claim C9. Let the frame loop run through the frames \<open>0, \<dots>, N\<close> (no abort, the queue
  drains, neither \<^verbatim>\<open>new VideoFrame\<close> nor \<^verbatim>\<open>encode\<close> throws) and let \<^verbatim>\<open>flush\<close> resolve.
  Then the driver has configured the encoder, submitted the \<open>N + 1\<close> frames, flushed and
  closed it, and it returns. The count of encoded chunks is at most \<open>N + 1\<close>, so the
  test \<^verbatim>\<open>encodedChunks < totalFrames + 1\<close> of the driver is the test for a count other
  than \<open>N + 1\<close>: a frame mismatch is recorded exactly when the count is not \<open>N + 1\<close>,
  and then with the expected and the counted number. Whether or not it is recorded, the
  run returns and the export goes on to its finalizing stage (given that the capability
  checks passed and mixing the audio does not throw).
\<close>

theorem frame_count_check:
  assumes "\<forall>k. 0 \<le> k \<and> k \<le> nFrames \<longrightarrow>
             \<not> aborted env k \<and> queueDrains env k \<and> videoFrameThrows env k = None \<and>
             encodeThrows env k = None"
    and "flushRejects env = None" and "0 \<le> nFrames"
  shows "fst (processVideo env settings nFrames) = Returned
   \<and> encoderCalls (snd (processVideo env settings nFrames)) =
       Configure # map (\<lambda>k. Encode (videoFrame env settings k)) [0..nFrames] @ [Flush, Close]
   \<and> encodedChunks env nFrames \<le> nFrames + 1
   \<and> ((\<exists>expected got. FrameMismatch expected got
           \<in> set (errorLog (snd (processVideo env settings nFrames))))
       \<longleftrightarrow> encodedChunks env nFrames \<noteq> nFrames + 1)
   \<and> (FrameMismatch (nFrames + 1) (encodedChunks env nFrames)
         \<in> set (errorLog (snd (processVideo env settings nFrames)))
       \<longleftrightarrow> encodedChunks env nFrames \<noteq> nFrames + 1)
   \<and> (nFrames = \<lceil>fmul (timelineDuration d) (fps settings)\<rceil> \<and>
       webCodecsSupported env \<and> videoConfigSupported env \<and>
       (\<forall>err. processAudio audioEnv settings d \<noteq> Inl err) \<longrightarrow>
       (\<exists>e. e \<in> set (fst (snd (export env audioEnv settings d))) \<and> stage e = Finalizing))"
proof (intro conjI impI)
  have ok: "\<forall>k. 0 \<le> k \<and> k \<le> nFrames \<longrightarrow> proceeds env k"
    using assms(1) by (simp add: proceeds_def)
  note pv = processVideo_completes [OF ok assms(2)]
  show le: "encodedChunks env nFrames \<le> nFrames + 1"
    using encodedChunks_bound [OF assms(3)] by simp
  have lt: "encodedChunks env nFrames < nFrames + 1 \<longleftrightarrow> encodedChunks env nFrames \<noteq> nFrames + 1"
    using le by linarith
  show "(\<exists>expected got. FrameMismatch expected got
           \<in> set (errorLog (snd (processVideo env settings nFrames))))
       \<longleftrightarrow> encodedChunks env nFrames \<noteq> nFrames + 1"
    unfolding pv lt [symmetric] by auto
  show "fst (processVideo env settings nFrames) = Returned"
    unfolding pv by simp
  show "encoderCalls (snd (processVideo env settings nFrames)) =
       Configure # map (\<lambda>k. Encode (videoFrame env settings k)) [0..nFrames] @ [Flush, Close]"
    unfolding pv by simp
  show "FrameMismatch (nFrames + 1) (encodedChunks env nFrames)
         \<in> set (errorLog (snd (processVideo env settings nFrames)))
       \<longleftrightarrow> encodedChunks env nFrames \<noteq> nFrames + 1"
    unfolding pv lt [symmetric] by auto
  assume h: "nFrames = \<lceil>fmul (timelineDuration d) (fps settings)\<rceil> \<and>
       webCodecsSupported env \<and> videoConfigSupported env \<and>
       (\<forall>err. processAudio audioEnv settings d \<noteq> Inl err)"
  obtain run where run: "processVideo env settings \<lceil>fmul (timelineDuration d) (fps settings)\<rceil> =
      (Returned, run)"
    using pv h by simp
  let ?fin = "finalizingEvent nFrames"
  have "?fin \<in> set (fst (snd (export env audioEnv settings d)))"
    using h run by (auto simp add: export_def Let_def caught_def split: sum.splits)
  moreover have "stage ?fin = Finalizing" by (simp add: finalizingEvent_def)
  ultimately show "\<exists>e. e \<in> set (fst (snd (export env audioEnv settings d))) \<and> stage e = Finalizing"
    by blast
qed

text \<open>
  A run of the 15 frames of half a second in which the encoder makes no output callback
  for frame 7: 15 chunks are counted where 16 are expected.
\<close>

definition dropped :: DriverEnv where
  "dropped =
     steady\<lparr>encoderOutput :=
       (\<lambda>k. if k = 7 then None else Some \<lparr>hasMeta = True, addThrows = False\<rparr>)\<rparr>"

lemma encodedChunks_dropped: "encodedChunks dropped 15 = 15"
  by (simp add: encodedChunks_def emitted_def dropped_def steady_def upto_rec1)

theorem frame_count_check_witness:
  "(\<forall>k. 0 \<le> k \<and> k \<le> 15 \<longrightarrow>
        \<not> aborted dropped k \<and> queueDrains dropped k \<and> videoFrameThrows dropped k = None \<and>
        encodeThrows dropped k = None) = True
   \<and> flushRejects dropped = None
   \<and> fst (processVideo dropped getDefaultSettings 15) = Returned
   \<and> encodedChunks dropped 15 = 15
   \<and> FrameMismatch 16 15 \<in> set (errorLog (snd (processVideo dropped getDefaultSettings 15)))"
proof -
  have ok: "\<forall>k. 0 \<le> k \<and> k \<le> 15 \<longrightarrow>
        \<not> aborted dropped k \<and> queueDrains dropped k \<and> videoFrameThrows dropped k = None \<and>
        encodeThrows dropped k = None"
    and fl: "flushRejects dropped = None"
    by (simp_all add: dropped_def steady_def)
  have n: "(0::int) \<le> 15" by simp
  show ?thesis
    using frame_count_check [OF ok fl n, of getDefaultSettings] ok fl
    unfolding encodedChunks_dropped by simp
qed

fun stageRank :: "Stage \<Rightarrow> nat" where
  "stageRank Initializing = 0"
| "stageRank Processing = 1"
| "stageRank Finalizing = 2"
| "stageRank Complete = 3"
| "stageRank Failed = 3"

definition halted :: DriverEnv where
  "halted = steady\<lparr>aborted := (\<lambda>k. k = 11)\<rparr>"

definition halfSecond :: TimelineExportData where
  "halfSecond = sampleTimeline\<lparr>timelineDuration := 1 / 2\<rparr>"

lemma percentage_mono:
  assumes "0 < n" "0 \<le> k" "k \<le> k'"
  shows "fmul (fdiv (of_int k) (of_int n)) 100 \<le> fmul (fdiv (of_int k') (of_int n)) 100"
proof -
  have q: "0 \<le> real_of_int k / real_of_int n" using assms by simp
  have "real_of_int k / real_of_int n \<le> real_of_int k' / real_of_int n"
    using assms by (simp add: divide_right_mono)
  then have m: "fl (real_of_int k / real_of_int n) \<le> fl (real_of_int k' / real_of_int n)"
    using q by (rule fl_mono_nonneg [rotated])
  have "0 \<le> fl (real_of_int k / real_of_int n)"
    using q by (simp add: fl_def roundTo_nonneg)
  then have "0 \<le> fl (real_of_int k / real_of_int n) * 100" by simp
  moreover have "fl (real_of_int k / real_of_int n) * 100 \<le> fl (real_of_int k' / real_of_int n) * 100"
    using m by simp
  ultimately show ?thesis unfolding fmul_def fdiv_def by (rule fl_mono_nonneg)
qed

lemma percentage_bounds:
  assumes "0 < n" "0 \<le> k" "k \<le> n"
  shows "0 \<le> fmul (fdiv (of_int k) (of_int n)) 100 \<and> fmul (fdiv (of_int k) (of_int n)) 100 \<le> 100"
proof -
  have z: "fmul (fdiv (of_int 0) (of_int n)) 100 = 0" by (simp add: farith fl_zero)
  have h: "fmul (fdiv (of_int n) (of_int n)) 100 = 100"
    using assms(1) by (simp add: farith fl_one fl_hundred)
  show ?thesis
    using percentage_mono [of n 0 k] percentage_mono [of n k n] assms unfolding z h by simp
qed

lemma sorted_map_mono:
  "sorted xs \<Longrightarrow> (\<And>x y. x \<in> set xs \<Longrightarrow> y \<in> set xs \<Longrightarrow> x \<le> y \<Longrightarrow> f x \<le> f y) \<Longrightarrow>
   sorted (map f xs)"
  by (induction xs) auto

lemma processVideo_progress:
  "\<exists>m. (m \<le> nFrames \<or> m = - 1) \<and>
     progressEvents (snd (processVideo env settings nFrames)) =
       map (\<lambda>k. emitRenderProgress k nFrames)
         (filter (\<lambda>k. k mod 10 = 0 \<or> k = nFrames) [0..m])"
proof -
  let ?run0 = "\<lparr>encoderCalls = [Configure], progressEvents = [], errorLog = []\<rparr>"
  obtain m where m: "m \<le> nFrames \<or> m = - 1"
    "snd (frameLoop env settings nFrames 0 ?run0) =
       ?run0\<lparr>encoderCalls := encoderCalls ?run0 @
              map (\<lambda>k. Encode (videoFrame env settings k)) [0..m],
           progressEvents := progressEvents ?run0 @
             map (\<lambda>k. emitRenderProgress k nFrames)
               (filter (\<lambda>k. k mod 10 = 0 \<or> k = nFrames) [0..m])\<rparr>"
    using frameLoop_trace [of 0 nFrames env settings ?run0] by auto
  have "progressEvents (snd (processVideo env settings nFrames)) =
      progressEvents (snd (frameLoop env settings nFrames 0 ?run0))"
  proof (cases "frameLoop env settings nFrames 0 ?run0")
    case (Pair c run)
    then show ?thesis
      by (cases c) (simp_all add: processVideo_def Let_def split: option.splits)
  qed
  then show ?thesis using m by (intro exI [of _ m]) simp
qed

definition processingEvents :: "ExportProgress list \<Rightarrow> bool" where
  "processingEvents ps \<longleftrightarrow>
     sorted (map percentage ps) \<and>
     list_all (\<lambda>e. stage e = Processing \<and> 0 \<le> percentage e \<and> percentage e \<le> 100) ps"

lemma processVideo_processingEvents:
  assumes "0 < nFrames"
  shows "processingEvents (progressEvents (snd (processVideo env settings nFrames)))"
proof -
  obtain m where m: "m \<le> nFrames \<or> m = - 1"
    "progressEvents (snd (processVideo env settings nFrames)) =
       map (\<lambda>k. emitRenderProgress k nFrames)
         (filter (\<lambda>k. k mod 10 = 0 \<or> k = nFrames) [0..m])"
    using processVideo_progress by blast
  define ks where "ks = filter (\<lambda>k. k mod 10 = 0 \<or> k = nFrames) [0..m]"
  have ks: "0 \<le> k \<and> k \<le> nFrames" if "k \<in> set ks" for k
    using that m(1) unfolding ks_def by auto
  have s: "sorted ks" unfolding ks_def by (simp add: sorted_wrt_filter)
  have sm: "sorted (map (\<lambda>k. fmul (fdiv (of_int k) (of_int nFrames)) 100) ks)"
  proof (rule sorted_map_mono [OF s])
    fix x y
    assume "x \<in> set ks" "y \<in> set ks" "x \<le> y"
    then show "fmul (fdiv (of_int x) (of_int nFrames)) 100 \<le>
        fmul (fdiv (of_int y) (of_int nFrames)) 100"
      using ks [of x] assms by (intro percentage_mono) simp_all
  qed
  have pm: "map percentage (map (\<lambda>k. emitRenderProgress k nFrames) ks) =
      map (\<lambda>k. fmul (fdiv (of_int k) (of_int nFrames)) 100) ks"
    by (simp add: emitRenderProgress_def)
  have "list_all (\<lambda>e. stage e = Processing \<and> 0 \<le> percentage e \<and> percentage e \<le> 100)
      (map (\<lambda>k. emitRenderProgress k nFrames) ks)"
    unfolding list_all_iff
  proof
    fix e
    assume "e \<in> set (map (\<lambda>k. emitRenderProgress k nFrames) ks)"
    then obtain k where k: "k \<in> set ks" "e = emitRenderProgress k nFrames" by auto
    have "0 \<le> fmul (fdiv (of_int k) (of_int nFrames)) 100 \<and>
        fmul (fdiv (of_int k) (of_int nFrames)) 100 \<le> 100"
      using ks [OF k(1)] assms by (intro percentage_bounds) simp_all
    then show "stage e = Processing \<and> 0 \<le> percentage e \<and> percentage e \<le> 100"
      unfolding k(2) by (simp add: emitRenderProgress_def)
  qed
  then show ?thesis
    unfolding processingEvents_def m(2) ks_def [symmetric] pm using sm by blast
qed


definition forward :: "ExportProgress list \<Rightarrow> bool" where
  "forward es \<longleftrightarrow>
     sorted (map stageRank (map stage es)) \<and>
     list_all (\<lambda>e. stage e \<noteq> Complete \<and> stage e \<noteq> Failed) (butlast es) \<and>
     sorted (map percentage (filter (\<lambda>e. stage e \<noteq> Failed) es)) \<and>
     list_all (\<lambda>e. stage e = Failed \<longrightarrow> percentage e = 0) es"

lemma forward_processing:
  assumes "processingEvents ps"
  shows "forward (initializingEvent # ps)"
    and "forward (initializingEvent # ps @ [failedEvent msg])"
    and "forward (initializingEvent # ps @ [finalizingEvent n, failedEvent msg])"
    and "forward (initializingEvent # ps @ [finalizingEvent n, completeEvent n])"
    and "sorted (map percentage (initializingEvent # ps @ [finalizingEvent n, completeEvent n]))"
proof -
  have st: "\<forall>e\<in>set ps. stage e = Processing" and lo: "\<forall>e\<in>set ps. 0 \<le> percentage e"
    and hi: "\<forall>e\<in>set ps. percentage e \<le> 100" and so: "sorted (map percentage ps)"
    using assms unfolding processingEvents_def list_all_iff by auto
  have f: "filter (\<lambda>e. stage e \<noteq> Failed) ps = ps" using st by (simp add: filter_id_conv)
  have r: "sorted (map stageRank (map stage ps))"
    "\<forall>e\<in>set ps. Suc 0 \<le> stageRank (stage e)" "\<forall>e\<in>set ps. stageRank (stage e) \<le> 2"
    using st by (simp_all add: sorted_wrt_map sorted_wrt_iff_nth_less)
  have b: "\<forall>e\<in>set (butlast ps). stage e = Processing" using st by (auto dest: in_set_butlastD)
  show "forward (initializingEvent # ps)"
    unfolding forward_def list_all_iff using st lo so r b f
    by (auto simp add: initializingEvent_def dest: in_set_butlastD)
  show "forward (initializingEvent # ps @ [failedEvent msg])"
    unfolding forward_def list_all_iff using st lo so r f
    by (auto simp add: initializingEvent_def failedEvent_def sorted_append butlast_append)
  show "forward (initializingEvent # ps @ [finalizingEvent n, failedEvent msg])"
    unfolding forward_def list_all_iff using st lo hi so r f
    by (auto simp add: initializingEvent_def failedEvent_def finalizingEvent_def sorted_append
        butlast_append)
  show "forward (initializingEvent # ps @ [finalizingEvent n, completeEvent n])"
    unfolding forward_def list_all_iff using st lo hi so r f
    by (auto simp add: initializingEvent_def completeEvent_def finalizingEvent_def sorted_append
        butlast_append)
  show "sorted (map percentage (initializingEvent # ps @ [finalizingEvent n, completeEvent n]))"
    using lo hi so
    by (auto simp add: initializingEvent_def completeEvent_def finalizingEvent_def sorted_append)
qed


lemma export_forward:
  assumes "0 < \<lceil>fmul (timelineDuration d) (fps settings)\<rceil>"
  shows "forward (fst (snd (export env audioEnv settings d)))
     \<and> (fst (export env audioEnv settings d) = Returned \<longrightarrow>
          sorted (map percentage (fst (snd (export env audioEnv settings d)))) \<and>
          stage (last (fst (snd (export env audioEnv settings d)))) = Complete)"
proof -
  define n where "n = \<lceil>fmul (timelineDuration d) (fps settings)\<rceil>"
  obtain c run where pv: "processVideo env settings n = (c, run)" by fastforce
  have "processingEvents (progressEvents (snd (processVideo env settings n)))"
    using assms unfolding n_def by (rule processVideo_processingEvents)
  then have ps: "processingEvents (progressEvents run)" unfolding pv by simp
  have nil: "processingEvents []" by (simp add: processingEvents_def)
  note fw = forward_processing [OF ps] forward_processing [OF nil]
  show ?thesis
  proof (cases "webCodecsSupported env \<and> videoConfigSupported env")
    case False
    then show ?thesis using fw(7) by (auto simp add: export_def caught_def)
  next
    case True
    show ?thesis
    proof (cases c)
      case Returned
      show ?thesis
      proof (cases "if audioConfigSupported env \<and> hasAudioTracks d
                    then processAudio audioEnv settings d else Inr None")
        case (Inl err)
        then show ?thesis
          using True pv Returned fw(2)
          by (simp add: export_def caught_def n_def [symmetric])
      next
        case (Inr mixed)
        then show ?thesis
          using True pv Returned fw(3,4,5)
          by (simp add: export_def caught_def n_def [symmetric] completeEvent_def)
      qed
    next
      case (Threw err)
      then show ?thesis
        using True pv fw(2) by (simp add: export_def caught_def n_def [symmetric])
    next
      case Hung
      then show ?thesis
        using True pv fw(1) by (simp add: export_def caught_def n_def [symmetric])
    qed
  qed
qed

text \<open>
  Claim C8. The claim has the percentages of a run never decrease. The \<^verbatim>\<open>catch\<close> branch
  of \<^verbatim>\<open>export\<close> emits its error event with percentage 0: a run of 15 frames aborted
  at frame 11 has reported two thirds of the frames and ends with 0.
\<close>

theorem progress_percentage_counterexample:
  "map stage (fst (snd (export halted toneEnv getDefaultSettings halfSecond))) =
     [Initializing, Processing, Processing, Failed]
   \<and> \<not> sorted (map percentage (fst (snd (export halted toneEnv getDefaultSettings halfSecond))))"
  by (simp add: export_def caught_def processVideo_def frameLoop.simps encodeAndReport_def
      emitRenderProgress_def halted_def steady_def halfSecond_def sampleTimeline_def
      getDefaultSettings_def initializingEvent_def failedEvent_def Let_def farith fl_eval)

text \<open>
  Claim C8, amended. For a timeline of at least one frame, over the events of one run the
  stage only moves forward along initializing, processing, finalizing and then complete
  or error, and no event follows a complete or an error event; the percentages of the
  events other than the error event never decrease; the error event reports 0. In a run
  that returns, all percentages are in order and the last stage is complete.
\<close>

theorem progress_forward:
  assumes "0 < \<lceil>fmul (timelineDuration d) (fps settings)\<rceil>"
  shows "sorted (map stageRank (map stage (fst (snd (export env audioEnv settings d)))))
   \<and> (\<forall>e \<in> set (butlast (fst (snd (export env audioEnv settings d)))).
        stage e \<noteq> Complete \<and> stage e \<noteq> Failed)
   \<and> sorted (map percentage
        (filter (\<lambda>e. stage e \<noteq> Failed) (fst (snd (export env audioEnv settings d)))))
   \<and> (\<forall>e \<in> set (fst (snd (export env audioEnv settings d))).
        stage e = Failed \<longrightarrow> percentage e = 0)
   \<and> (fst (export env audioEnv settings d) = Returned \<longrightarrow>
        sorted (map percentage (fst (snd (export env audioEnv settings d)))) \<and>
        stage (last (fst (snd (export env audioEnv settings d)))) = Complete)"
  using export_forward [OF assms, of env audioEnv] unfolding forward_def list_all_iff by blast


definition videoOnly :: DriverEnv where
  "videoOnly = steady\<lparr>audioConfigSupported := False\<rparr>"

theorem progress_forward_witness:
  "0 < \<lceil>fmul (timelineDuration halfSecond) (fps getDefaultSettings)\<rceil>
   \<and> fst (export videoOnly toneEnv getDefaultSettings halfSecond) = Returned
   \<and> sorted (map percentage (fst (snd (export videoOnly toneEnv getDefaultSettings halfSecond))))
   \<and> stage (last (fst (snd (export videoOnly toneEnv getDefaultSettings halfSecond)))) = Complete"
proof -
  have n: "\<lceil>fmul (timelineDuration halfSecond) (fps getDefaultSettings)\<rceil> = 15"
    by (simp add: halfSecond_def getDefaultSettings_def farith fl_eval)
  have h: "0 < \<lceil>fmul (timelineDuration halfSecond) (fps getDefaultSettings)\<rceil>"
    unfolding n by simp
  have ok: "\<forall>k. 0 \<le> k \<and> k \<le> 15 \<longrightarrow> proceeds videoOnly k" "flushRejects videoOnly = None"
    by (simp_all add: videoOnly_def steady_def proceeds_def)
  have r: "fst (export videoOnly toneEnv getDefaultSettings halfSecond) = Returned"
    unfolding export_def n Let_def processVideo_completes [OF ok]
    by (simp add: videoOnly_def steady_def)
  show ?thesis
    using progress_forward [OF h, of videoOnly toneEnv] h r by blast
qed

lemma keyFrame_integral:
  assumes "fps settings = of_int f" "1 \<le> f" "f \<le> 120" "0 \<le> k"
  shows "keyFrame (videoFrame env settings k) \<longleftrightarrow> k mod (3 * f) = 0"
proof -
  have "fmul 3 (of_int f) = fl (of_int (3 * f))" by (simp add: fmul_def)
  also have "\<dots> = of_int (3 * f)" using assms(2,3) by (intro fl_of_int) simp_all
  finally have "frem (of_int k) (fmul 3 (fps settings)) = of_int (k mod (3 * f))"
    using assms by (simp only: assms(1)) (intro frem_of_int, simp_all)
  then show ?thesis by (simp add: videoFrame_def)
qed

lemma frameDuration_integral:
  assumes "fps settings = of_int f" "1 \<le> f" "f \<le> 120"
  shows "frameDuration (videoFrame env settings k) = 1000000 div f"
proof -
  define x where "x = 1000000 / real_of_int f"
  have fr: "0 < real_of_int f" "real_of_int f \<le> 120" using assms(2,3) by simp_all
  have x: "0 < x" "x \<le> 1000000" using fr assms(2) by (simp_all add: x_def field_simps)
  have d: "frameDuration (videoFrame env settings k) = \<lfloor>fl x\<rfloor>"
    by (simp add: videoFrame_def fdiv_def assms(1) x_def)
  show ?thesis
  proof (cases "1000000 mod f = 0")
    case True
    then have "1000000 = f * (1000000 div f)" by auto
    then have "real_of_int 1000000 = real_of_int (f * (1000000 div f))" by (simp only:)
    then have "x = of_int (1000000 div f)" using fr by (simp add: x_def field_simps)
    moreover have "fl (of_int (1000000 div f)) = of_int (1000000 div f)"
    proof (rule fl_of_int)
      show "0 \<le> 1000000 div f" using assms(2) by (simp add: pos_imp_zdiv_nonneg_iff)
      have "1000000 div f \<le> 1000000 div 1" using assms(2) by (intro zdiv_mono2) simp_all
      then show "1000000 div f < 2 ^ 53" by simp
    qed
    ultimately show ?thesis unfolding d by simp
  next
    case False
    have "\<bar>fl x - x\<bar> \<le> x / 2 ^ 53" using x(1) by (rule fl_error)
    also have "\<dots> \<le> 1000000 / 2 ^ 53" using x(2) by (simp add: divide_right_mono)
    also have "\<dots> < 1 / 120" by simp
    also have "\<dots> \<le> 1 / real_of_int f" using fr by (simp add: field_simps)
    finally have "\<bar>fl x - of_int 1000000 / of_int f\<bar> < 1 / of_int f" by (simp add: x_def)
    then show ?thesis
      unfolding d using floor_near_quotient [of f "fl x" 1000000] assms(2) False by simp
  qed
qed

lemma timestamp_integral:
  assumes "fps settings = of_int f" "1 \<le> f" "f \<le> 120" "0 \<le> k" "k \<le> 2 ^ 31"
  shows "(k * 1000000 mod f \<noteq> 0 \<longrightarrow>
            timestamp (videoFrame env settings k) = k * 1000000 div f)
       \<and> (timestamp (videoFrame env settings k) = k * 1000000 div f \<or>
          timestamp (videoFrame env settings k) = k * 1000000 div f - 1)"
proof (cases "k = 0")
  case True
  then show ?thesis by (simp add: videoFrame_def farith fl_zero)
next
  case False
  define a where "a = real_of_int k / real_of_int f"
  define t1 where "t1 = fl a"
  define p where "p = t1 * 1000000"
  define t2 where "t2 = fl p"
  define u where "u = (1::real) / 2 ^ 53"
  have fr: "0 < real_of_int f" using assms(2) by simp
  have kr: "0 < real_of_int k" "real_of_int k \<le> 2 ^ 31"
  proof -
    show "0 < real_of_int k" using assms(4) False by simp
    have "real_of_int k \<le> real_of_int (2 ^ 31)" using assms(5) by (simp only: of_int_le_iff)
    then show "real_of_int k \<le> 2 ^ 31" by simp
  qed
  have a: "0 < a" using fr kr by (simp add: a_def)
  have ts: "timestamp (videoFrame env settings k) = \<lfloor>t2\<rfloor>"
    by (simp add: videoFrame_def farith assms(1) t2_def p_def t1_def a_def)
  have e1: "\<bar>t1 - a\<bar> \<le> a * u" using fl_error [OF a] by (simp add: t1_def u_def)
  have u: "0 < u" "u < 1" by (simp_all add: u_def)
  have "a - a * u \<le> t1" using e1 by (simp add: abs_le_iff)
  moreover have "0 < a - a * u" using a u by (simp add: algebra_simps)
  ultimately have t1: "0 < t1" by simp
  then have p: "0 < p" by (simp add: p_def)
  have e2: "\<bar>t2 - p\<bar> \<le> p * u" using fl_error [OF p] by (simp add: t2_def u_def)
  have t1u: "t1 \<le> a + a * u" using e1 by (simp add: abs_le_iff)
  have pX: "\<bar>p - a * 1000000\<bar> \<le> a * 1000000 * u"
  proof -
    have eq: "p - a * 1000000 = (t1 - a) * 1000000" by (simp add: p_def algebra_simps)
    have "\<bar>p - a * 1000000\<bar> = \<bar>(t1 - a) * 1000000\<bar>" by (simp only: eq)
    also have "\<dots> = \<bar>t1 - a\<bar> * \<bar>1000000\<bar>" by (rule abs_mult)
    finally have "\<bar>p - a * 1000000\<bar> = \<bar>t1 - a\<bar> * 1000000" by simp
    then show ?thesis using e1 by simp
  qed
  have pu: "p * u \<le> (a + a * u) * 1000000 * u"
    using t1u u(1) by (simp add: p_def)
  have "\<bar>t2 - a * 1000000\<bar> \<le> \<bar>t2 - p\<bar> + \<bar>p - a * 1000000\<bar>" by simp
  also have "\<dots> \<le> (a + a * u) * 1000000 * u + a * 1000000 * u"
    using e2 pu pX by linarith
  also have "\<dots> = a * (1000000 * u * (2 + u))" by (simp add: algebra_simps)
  also have "\<dots> \<le> a * (3000000 * u)"
    using a u by (intro mult_left_mono) (simp_all add: algebra_simps)
  finally have err: "\<bar>t2 - a * 1000000\<bar> \<le> real_of_int k * (3000000 * u) / real_of_int f"
    by (simp add: a_def)
  have "real_of_int k * (3000000 * u) \<le> 2 ^ 31 * (3000000 * u)"
    using kr(2) u(1) by (intro mult_right_mono) simp_all
  also have "\<dots> < 1" by (simp add: u_def)
  finally have "real_of_int k * (3000000 * u) / real_of_int f < 1 / real_of_int f"
    using fr by (simp add: divide_strict_right_mono)
  with err have "\<bar>t2 - a * 1000000\<bar> < 1 / real_of_int f" by simp
  moreover have "a * 1000000 = of_int (k * 1000000) / of_int f" by (simp add: a_def)
  ultimately have "\<bar>t2 - of_int (k * 1000000) / of_int f\<bar> < 1 / of_int f" by simp
  then show ?thesis
    unfolding ts using floor_near_quotient [of f t2 "k * 1000000"] assms(2) by simp
qed


lemma timestamp_increasing:
  assumes "fps settings = of_int f" "1 \<le> f" "f \<le> 120" "0 \<le> k" "k + 1 \<le> 2 ^ 31"
  shows "timestamp (videoFrame env settings k) < timestamp (videoFrame env settings (k + 1))"
proof -
  have "timestamp (videoFrame env settings k) \<le> k * 1000000 div f"
    using timestamp_integral [OF assms(1,2,3,4), of env] assms(5) by auto
  moreover have "(k + 1) * 1000000 div f - 1 \<le> timestamp (videoFrame env settings (k + 1))"
    using timestamp_integral [OF assms(1,2,3) _ assms(5), of env] assms(4) by auto
  moreover have "k * 1000000 div f + 8333 \<le> (k + 1) * 1000000 div f"
  proof -
    have "(k * 1000000 + 1000000) div f =
        k * 1000000 div f + 1000000 div f + (k * 1000000 mod f + 1000000 mod f) div f"
      by (rule div_add1_eq)
    moreover have "0 \<le> (k * 1000000 mod f + 1000000 mod f) div f"
      using assms(2) by (simp add: pos_imp_zdiv_nonneg_iff)
    moreover have "1000000 div 120 \<le> 1000000 div f"
      using assms(2,3) by (intro zdiv_mono2) simp_all
    ultimately show ?thesis by (simp add: algebra_simps)
  qed
  ultimately show ?thesis by simp
qed

text \<open>
  Property X1. With a whole frame rate from 1 to 120 and at most \<open>2 ^ 31\<close> frames, a run
  that is not aborted, whose queue drains and in which the encoder's methods do not throw
  configures the encoder, submits the frames \<open>0, \<dots>, N\<close> in this order, flushes and
  closes. Frame \<open>k\<close> has the duration
  \<open>1000000 div fps\<close>, is a key frame exactly when \<open>k mod (3 * fps) = 0\<close>, and its
  timestamp is \<open>k * 1000000 div fps\<close> or one less, the latter only where \<open>fps\<close> divides
  \<open>k * 1000000\<close>; the timestamps increase strictly.
\<close>

theorem driver_frames:
  assumes "\<forall>k. 0 \<le> k \<and> k \<le> nFrames \<longrightarrow>
             \<not> aborted env k \<and> queueDrains env k \<and> videoFrameThrows env k = None \<and>
             encodeThrows env k = None"
    and "fps settings = of_int f" "1 \<le> f" "f \<le> 120" "0 \<le> nFrames" "nFrames \<le> 2 ^ 31"
    and "flushRejects env = None"
  shows "encoderCalls (snd (processVideo env settings nFrames)) =
       Configure # map (\<lambda>k. Encode (videoFrame env settings k)) [0..nFrames] @ [Flush, Close]
   \<and> length [0..nFrames] = nat (nFrames + 1)
   \<and> (\<forall>k. 0 \<le> k \<and> k \<le> nFrames \<longrightarrow>
        frameDuration (videoFrame env settings k) = 1000000 div f
        \<and> (keyFrame (videoFrame env settings k) \<longleftrightarrow> k mod (3 * f) = 0)
        \<and> (timestamp (videoFrame env settings k) = k * 1000000 div f \<or>
           timestamp (videoFrame env settings k) = k * 1000000 div f - 1)
        \<and> (k * 1000000 mod f \<noteq> 0 \<longrightarrow>
             timestamp (videoFrame env settings k) = k * 1000000 div f)
        \<and> (k < nFrames \<longrightarrow>
             timestamp (videoFrame env settings k) < timestamp (videoFrame env settings (k + 1))))"
proof (intro conjI allI impI)
  have ok: "\<forall>k. 0 \<le> k \<and> k \<le> nFrames \<longrightarrow> proceeds env k"
    using assms(1) by (simp add: proceeds_def)
  show "encoderCalls (snd (processVideo env settings nFrames)) =
       Configure # map (\<lambda>k. Encode (videoFrame env settings k)) [0..nFrames] @ [Flush, Close]"
    unfolding processVideo_completes [OF ok assms(7)] by simp
  show "length [0..nFrames] = nat (nFrames + 1)" by simp
next
  fix k
  assume k: "0 \<le> k \<and> k \<le> nFrames"
  then have k31: "k \<le> 2 ^ 31" using assms(6) by simp
  show "frameDuration (videoFrame env settings k) = 1000000 div f"
    using assms(2,3,4) by (rule frameDuration_integral)
  show "keyFrame (videoFrame env settings k) \<longleftrightarrow> k mod (3 * f) = 0"
    using assms(2,3,4) k by (intro keyFrame_integral) simp_all
  show "timestamp (videoFrame env settings k) = k * 1000000 div f \<or>
        timestamp (videoFrame env settings k) = k * 1000000 div f - 1"
    using timestamp_integral [OF assms(2,3,4) _ k31, of env] k by simp
  show "timestamp (videoFrame env settings k) = k * 1000000 div f"
    if "k * 1000000 mod f \<noteq> 0"
    using timestamp_integral [OF assms(2,3,4) _ k31, of env] k that by simp
  show "timestamp (videoFrame env settings k) < timestamp (videoFrame env settings (k + 1))"
    if "k < nFrames"
    using that k assms(6) by (intro timestamp_increasing [OF assms(2,3,4)]) simp_all
qed

theorem driver_frames_witness:
  "fps getDefaultSettings = of_int 30
   \<and> length [0..(150::int)] = 151
   \<and> frameDuration (videoFrame steady getDefaultSettings 90) = 33333
   \<and> keyFrame (videoFrame steady getDefaultSettings 90)
   \<and> timestamp (videoFrame steady getDefaultSettings 91) = 3033333"
proof -
  have ok: "\<forall>k. 0 \<le> k \<and> k \<le> 150 \<longrightarrow>
      \<not> aborted steady k \<and> queueDrains steady k \<and> videoFrameThrows steady k = None \<and>
      encodeThrows steady k = None"
    and fr: "flushRejects steady = None"
    by (simp_all add: steady_def)
  have f: "fps getDefaultSettings = of_int 30" by (simp add: getDefaultSettings_def)
  have b: "(1::int) \<le> 30" "(30::int) \<le> 120" "(0::int) \<le> 150" "(150::int) \<le> 2 ^ 31"
    by simp_all
  note d = driver_frames [OF ok f b fr]
  have "frameDuration (videoFrame steady getDefaultSettings 90) = 1000000 div 30
      \<and> (keyFrame (videoFrame steady getDefaultSettings 90) \<longleftrightarrow> 90 mod (3 * 30) = (0::int))"
    using d by simp
  moreover have "timestamp (videoFrame steady getDefaultSettings 91) = 91 * 1000000 div 30"
    using d by simp
  ultimately show ?thesis using f by simp
qed

end
